theory Spec2Isabelle
  imports Main
begin

section \<open>Python values, exceptions and data frames\<close>

text \<open>
  The program is \<^verbatim>\<open>src/etl_scripts/procedures.py\<close>: two functions over pandas data
  frames. A cell of a frame holds a Python object; the objects this program meets are
  strings, \<^verbatim>\<open>None\<close>, the float \<^verbatim>\<open>nan\<close>, booleans, dictionaries (the publisher
  structure), and, after \<^verbatim>\<open>pd.to_datetime\<close>, timestamps, \<^verbatim>\<open>NaT\<close> and dates.
  A string is its sequence of UTF-8 bytes: the characters the program looks for
  (line feed, carriage return, backslash, the ASCII failure marker) are single bytes that
  occur in no multi-byte sequence, so replacing and searching agree with Python's
  code-point strings.

  A timestamp is kept as its wall-clock fields; time zones are not modelled.
\<close>

datatype date = Date (year: int) (month: nat) (day: nat)

datatype timestamp =
  Timestamp (ts_date: date) (ts_hour: nat) (ts_minute: nat) (ts_second: nat)

datatype pyval =
    PNone
  | PNaN
  | PNaT
  | PBool bool
  | PStr string
  | PDict "(string \<times> pyval) list"
  | PTimestamp timestamp
  | PDate date

datatype error =
    KeyError string
  | TypeError string
  | ValueError string
  | AttributeError string

text \<open>An exception ends the computation: the rest runs only on a value.\<close>

definition and_then :: "error + 'a \<Rightarrow> ('a \<Rightarrow> error + 'b) \<Rightarrow> error + 'b" where
  "and_then m f = (case m of Inl e \<Rightarrow> Inl e | Inr x \<Rightarrow> f x)"

text \<open>
  A data frame is column-major, as in pandas: the row labels (\<open>index\<close>) and the labelled
  columns in their order. Pandas allows a label to occur twice (after a \<^verbatim>\<open>rename\<close>).
\<close>

record frame =
  index :: "nat list"
  cols :: "(string \<times> pyval list) list"

definition wf_frame :: "frame \<Rightarrow> bool" where
  "wf_frame df \<longleftrightarrow>
     distinct (map fst (cols df)) \<and> list_all (\<lambda>c. length (snd c) = length (index df)) (cols df)"

definition columns :: "frame \<Rightarrow> string list" where
  "columns df = map fst (cols df)"

definition nrows :: "frame \<Rightarrow> nat" where
  "nrows df = length (index df)"

text \<open>
  \<^verbatim>\<open>df[name]\<close>: the column, \<^verbatim>\<open>KeyError\<close> when there is none. For a label that occurs
  twice pandas returns a frame, on which each use this program makes of the result
  (\<^verbatim>\<open>.str\<close>, \<^verbatim>\<open>x["title"]\<close> in \<^verbatim>\<open>apply\<close>, \<^verbatim>\<open>pd.to_datetime\<close>, \<^verbatim>\<open>.dt\<close>) raises; the
  model raises at once.
\<close>

definition getitem :: "string \<Rightarrow> frame \<Rightarrow> error + pyval list" where
  "getitem name df =
     (case filter (\<lambda>c. fst c = name) (cols df) of
        [] \<Rightarrow> Inl (KeyError name)
      | [c] \<Rightarrow> Inr (snd c)
      | _ \<Rightarrow> Inl (AttributeError name))"

text \<open>
  \<^verbatim>\<open>df[name] = values\<close>: replaces the column under that label where it stands, or
  appends a new last column; the values must be as many as the rows.
\<close>

definition setitem :: "string \<Rightarrow> pyval list \<Rightarrow> frame \<Rightarrow> error + frame" where
  "setitem name vals df =
     (if length vals \<noteq> length (index df)
      then Inl (ValueError ''Length of values does not match length of index'')
      else Inr (df\<lparr>cols :=
        (if name \<in> set (map fst (cols df))
         then map (\<lambda>c. if fst c = name then (name, vals) else c) (cols df)
         else cols df @ [(name, vals)])\<rparr>))"

text \<open>\<^verbatim>\<open>df[mask]\<close> with a boolean mask: the rows whose mask entry is true, labels kept.\<close>

definition select :: "bool list \<Rightarrow> 'a list \<Rightarrow> 'a list" where
  "select keep xs = map snd (filter fst (zip keep xs))"

definition getitem_mask :: "bool list \<Rightarrow> frame \<Rightarrow> error + frame" where
  "getitem_mask keep df =
     (if length keep \<noteq> length (index df)
      then Inl (ValueError ''Item wrong length'')
      else Inr \<lparr>index = select keep (index df),
                cols = map (\<lambda>c. (fst c, select keep (snd c))) (cols df)\<rparr>)"

text \<open>\<^verbatim>\<open>df.rename(columns={old: new})\<close>: a label that is not there is ignored.\<close>

definition rename :: "string \<Rightarrow> string \<Rightarrow> frame \<Rightarrow> frame" where
  "rename old new df =
     df\<lparr>cols := map (\<lambda>c. (if fst c = old then new else fst c, snd c)) (cols df)\<rparr>"

text \<open>
  \<^verbatim>\<open>df[[n1, n2, ...]]\<close>: the columns under the labels, in the order of the list;
  \<^verbatim>\<open>KeyError\<close> when a label has no column.
\<close>

fun take_columns :: "string list \<Rightarrow> (string \<times> pyval list) list \<Rightarrow> error + (string \<times> pyval list) list" where
  "take_columns [] cs = Inr []"
| "take_columns (n # ns) cs =
     (case filter (\<lambda>c. fst c = n) cs of
        [] \<Rightarrow> Inl (KeyError n)
      | found \<Rightarrow> and_then (take_columns ns cs) (\<lambda>rest. Inr (found @ rest)))"

definition getitem_list :: "string list \<Rightarrow> frame \<Rightarrow> error + frame" where
  "getitem_list names df =
     and_then (take_columns names (cols df)) (\<lambda>cs. Inr \<lparr>index = index df, cols = cs\<rparr>)"

section \<open>Operations on a column\<close>

text \<open>
  \<^verbatim>\<open>s.str.contains(pat)\<close> for a pattern without regular-expression operators is the
  substring test; an entry that is not a string gives \<^verbatim>\<open>nan\<close>.
\<close>

fun startswith :: "string \<Rightarrow> string \<Rightarrow> bool" where
  "startswith s [] = True"
| "startswith [] (p # ps) = False"
| "startswith (c # cs) (p # ps) = (c = p \<and> startswith cs ps)"

fun contains :: "string \<Rightarrow> string \<Rightarrow> bool" where
  "contains [] pat = (pat = [])"
| "contains (c # cs) pat = (startswith (c # cs) pat \<or> contains cs pat)"

definition str_contains :: "string \<Rightarrow> pyval list \<Rightarrow> pyval list" where
  "str_contains pat vals =
     map (\<lambda>v. case v of PStr s \<Rightarrow> PBool (contains s pat) | _ \<Rightarrow> PNaN) vals"

text \<open>\<^verbatim>\<open>~s\<close>: negates a boolean column; \<^verbatim>\<open>TypeError\<close> on an entry that is not boolean.\<close>

fun invert :: "pyval list \<Rightarrow> error + bool list" where
  "invert [] = Inr []"
| "invert (PBool b # vs) = and_then (invert vs) (\<lambda>bs. Inr ((\<not> b) # bs))"
| "invert (_ # vs) = Inl (TypeError ''bad operand type for unary ~'')"

text \<open>
  \<^verbatim>\<open>s.replace(pat, repl, regex=True)\<close> for a pattern that matches exactly one
  character: every occurrence in every string entry is replaced; other entries stay.
\<close>

definition replace_char :: "char \<Rightarrow> string \<Rightarrow> string \<Rightarrow> string" where
  "replace_char c repl s = concat (map (\<lambda>x. if x = c then repl else [x]) s)"

definition replace_regex :: "char \<Rightarrow> string \<Rightarrow> pyval list \<Rightarrow> pyval list" where
  "replace_regex c repl vals =
     map (\<lambda>v. case v of PStr s \<Rightarrow> PStr (replace_char c repl s) | _ \<Rightarrow> v) vals"

text \<open>\<^verbatim>\<open>s.apply(f)\<close>: \<open>f\<close> on each entry in turn; the first exception ends the call.\<close>

fun apply_series :: "(pyval \<Rightarrow> error + pyval) \<Rightarrow> pyval list \<Rightarrow> error + pyval list" where
  "apply_series f [] = Inr []"
| "apply_series f (v # vs) =
     and_then (f v) (\<lambda>y. and_then (apply_series f vs) (\<lambda>ys. Inr (y # ys)))"

text \<open>\<^verbatim>\<open>x["title"]\<close>: defined on a dictionary that has the key.\<close>

fun subscript :: "string \<Rightarrow> pyval \<Rightarrow> error + pyval" where
  "subscript key (PDict d) =
     (case map_of d key of None \<Rightarrow> Inl (KeyError key) | Some v \<Rightarrow> Inr v)"
| "subscript key (PStr s) = Inl (TypeError ''string indices must be integers'')"
| "subscript key _ = Inl (TypeError ''object is not subscriptable'')"

text \<open>
  \<^verbatim>\<open>pd.to_datetime\<close> is library code. What it makes of a date string is a parameter
  of the model: the string is unparseable, or stands for \<^verbatim>\<open>NaT\<close>, or is a timestamp.
  With the default \<^verbatim>\<open>errors='raise'\<close> an unparseable string raises. Missing values
  become \<^verbatim>\<open>NaT\<close>, timestamps stay, a date becomes its midnight.
\<close>

datatype parsed = Unparseable | Missing | Parsed timestamp

fun to_datetime1 :: "(string \<Rightarrow> parsed) \<Rightarrow> pyval \<Rightarrow> error + pyval" where
  "to_datetime1 parse (PStr s) =
     (case parse s of
        Unparseable \<Rightarrow> Inl (ValueError ''Unknown datetime string format'')
      | Missing \<Rightarrow> Inr PNaT
      | Parsed t \<Rightarrow> Inr (PTimestamp t))"
| "to_datetime1 parse (PTimestamp t) = Inr (PTimestamp t)"
| "to_datetime1 parse (PDate d) = Inr (PTimestamp (Timestamp d 0 0 0))"
| "to_datetime1 parse PNone = Inr PNaT"
| "to_datetime1 parse PNaN = Inr PNaT"
| "to_datetime1 parse PNaT = Inr PNaT"
| "to_datetime1 parse _ = Inl (TypeError ''not convertible to datetime'')"

definition to_datetime :: "(string \<Rightarrow> parsed) \<Rightarrow> pyval list \<Rightarrow> error + pyval list" where
  "to_datetime parse vals = apply_series (to_datetime1 parse) vals"

text \<open>\<^verbatim>\<open>s.dt.date\<close>: the calendar date of each timestamp; only on a datetime column.\<close>

fun dt_date1 :: "pyval \<Rightarrow> error + pyval" where
  "dt_date1 (PTimestamp t) = Inr (PDate (ts_date t))"
| "dt_date1 PNaT = Inr PNaT"
| "dt_date1 _ = Inl (AttributeError ''Can only use .dt accessor with datetimelike values'')"

definition dt_date :: "pyval list \<Rightarrow> error + pyval list" where
  "dt_date vals = apply_series dt_date1 vals"

section \<open>The Cleaner\<close>

definition failure_marker :: string where
  "failure_marker = ''Error when downloading and parsing article''"

definition LF :: char where "LF = CHR 0x0A"
definition CR :: char where "CR = CHR 0x0D"
definition BACKSLASH :: char where "BACKSLASH = CHR 0x5C"

definition cleaned_columns :: "string list" where
  "cleaned_columns =
     [''entity'', ''source_publisher'', ''title'', ''full_text'', ''url'',
      ''published_time'', ''published_date'', ''image_url'']"

text \<open>
  \<^verbatim>\<open>cleaning_fetched_articles(df)\<close>, line by line, as a function of the value of the
  input frame (\<^verbatim>\<open>df.copy()\<close> is the same value in a new object; the objects are the
  subject of the store model further down).
\<close>

definition cleaning_fetched_articles :: "(string \<Rightarrow> parsed) \<Rightarrow> frame \<Rightarrow> error + frame" where
  "cleaning_fetched_articles parse df =
     and_then (getitem ''full_text'' df) (\<lambda>texts.
     and_then (invert (str_contains failure_marker texts)) (\<lambda>keep.
     and_then (getitem_mask keep df) (\<lambda>df1.
     and_then (getitem ''full_text'' df1) (\<lambda>t1.
     and_then (setitem ''full_text'' (replace_regex LF ''||'' t1) df1) (\<lambda>df2.
     and_then (getitem ''full_text'' df2) (\<lambda>t2.
     and_then (setitem ''full_text'' (replace_regex CR ''||'' t2) df2) (\<lambda>df3.
     and_then (getitem ''full_text'' df3) (\<lambda>t3.
     and_then (setitem ''full_text'' (replace_regex BACKSLASH [] t3) df3) (\<lambda>df4.
     and_then (Inr (rename ''published date'' ''published_time'' df4)) (\<lambda>df5.
     and_then (getitem ''publisher'' df5) (\<lambda>pubs.
     and_then (apply_series (subscript ''title'') pubs) (\<lambda>names.
     and_then (setitem ''source_publisher'' names df5) (\<lambda>df6.
     and_then (getitem ''published_time'' df6) (\<lambda>times.
     and_then (to_datetime parse times) (\<lambda>stamps.
     and_then (setitem ''published_time'' stamps df6) (\<lambda>df7.
     and_then (getitem ''published_time'' df7) (\<lambda>stamps'.
     and_then (dt_date stamps') (\<lambda>dates.
     and_then (setitem ''published_date'' dates df7) (\<lambda>df8.
     getitem_list cleaned_columns df8)))))))))))))))))))"

text \<open>
  The same function over a store of frame objects, to see which objects it writes. A
  reference is a position in the store. \<^verbatim>\<open>df.copy()\<close>, \<^verbatim>\<open>df[mask]\<close>,
  \<^verbatim>\<open>df.rename(...)\<close> and \<^verbatim>\<open>df[[...]]\<close> each build a new object; \<^verbatim>\<open>df[name] = values\<close>
  writes the object that the name \<^verbatim>\<open>fetched_news_df\<close> refers to at that line. Columns
  read from a frame are values. An exception leaves the store as it is at that line.
\<close>

type_synonym ref = nat
type_synonym store = "frame list"
type_synonym 'a action = "store \<Rightarrow> (error + 'a) \<times> store"

definition bind_st :: "'a action \<Rightarrow> ('a \<Rightarrow> 'b action) \<Rightarrow> 'b action" where
  "bind_st m f h = (case m h of (Inl e, h') \<Rightarrow> (Inl e, h') | (Inr x, h') \<Rightarrow> f x h')"

definition pure_st :: "error + 'a \<Rightarrow> 'a action" where
  "pure_st v h = (v, h)"

definition read_st :: "(frame \<Rightarrow> error + 'a) \<Rightarrow> ref \<Rightarrow> 'a action" where
  "read_st g r h = (g (h ! r), h)"

definition new_st :: "(frame \<Rightarrow> error + frame) \<Rightarrow> ref \<Rightarrow> ref action" where
  "new_st g r h =
     (case g (h ! r) of Inl e \<Rightarrow> (Inl e, h) | Inr f \<Rightarrow> (Inr (length h), h @ [f]))"

definition write_st :: "(frame \<Rightarrow> error + frame) \<Rightarrow> ref \<Rightarrow> unit action" where
  "write_st g r h =
     (case g (h ! r) of Inl e \<Rightarrow> (Inl e, h) | Inr f \<Rightarrow> (Inr (), h[r := f]))"

definition cleaning_fetched_articles_st :: "(string \<Rightarrow> parsed) \<Rightarrow> ref \<Rightarrow> ref action" where
  "cleaning_fetched_articles_st parse df =
     bind_st (new_st Inr df) (\<lambda>r0.
     bind_st (read_st (getitem ''full_text'') r0) (\<lambda>texts.
     bind_st (pure_st (invert (str_contains failure_marker texts))) (\<lambda>keep.
     bind_st (new_st (getitem_mask keep) r0) (\<lambda>r1.
     bind_st (read_st (getitem ''full_text'') r1) (\<lambda>t1.
     bind_st (write_st (setitem ''full_text'' (replace_regex LF ''||'' t1)) r1) (\<lambda>_.
     bind_st (read_st (getitem ''full_text'') r1) (\<lambda>t2.
     bind_st (write_st (setitem ''full_text'' (replace_regex CR ''||'' t2)) r1) (\<lambda>_.
     bind_st (read_st (getitem ''full_text'') r1) (\<lambda>t3.
     bind_st (write_st (setitem ''full_text'' (replace_regex BACKSLASH [] t3)) r1) (\<lambda>_.
     bind_st (new_st (\<lambda>f. Inr (rename ''published date'' ''published_time'' f)) r1) (\<lambda>r2.
     bind_st (read_st (getitem ''publisher'') r2) (\<lambda>pubs.
     bind_st (pure_st (apply_series (subscript ''title'') pubs)) (\<lambda>names.
     bind_st (write_st (setitem ''source_publisher'' names) r2) (\<lambda>_.
     bind_st (read_st (getitem ''published_time'') r2) (\<lambda>times.
     bind_st (pure_st (to_datetime parse times)) (\<lambda>stamps.
     bind_st (write_st (setitem ''published_time'' stamps) r2) (\<lambda>_.
     bind_st (read_st (getitem ''published_time'') r2) (\<lambda>stamps'.
     bind_st (pure_st (dt_date stamps')) (\<lambda>dates.
     bind_st (write_st (setitem ''published_date'' dates) r2) (\<lambda>_.
     new_st (getitem_list cleaned_columns) r2))))))))))))))))))))"

section \<open>The Fetcher\<close>

text \<open>
  The search client (\<^verbatim>\<open>GNews\<close>) and the article client (\<^verbatim>\<open>newspaper.Article\<close>) are
  outside the repository: they are the environment, which answers each call and moves
  to a new state of the world. Lines 23 to 31 (the client for language \<^verbatim>\<open>id\<close>, country
  Indonesia, the cap on results, the window from today minus \<open>n_days\<close> to today, and the
  query) are the one call \<open>get_news\<close>; it returns the list of result dictionaries or
  raises. \<open>download_parse\<close> stands for \<^verbatim>\<open>article.download(); article.parse()\<close> on the
  url: it gives the parsed article, or the text \<^verbatim>\<open>str(e)\<close> of the exception raised.
\<close>

type_synonym item = "(string \<times> pyval) list"

record article =
  article_text :: string
  article_images :: "string list"

record 'w env =
  get_news :: "string \<Rightarrow> int \<Rightarrow> int \<Rightarrow> 'w \<Rightarrow> (error + item list) \<times> 'w"
  download_parse :: "string \<Rightarrow> 'w \<Rightarrow> (string + article) \<times> 'w"

text \<open>What the function does to the outside: the world, the lines printed, the time slept.\<close>

record 'w io =
  world :: 'w
  stdout :: "string list"
  slept :: nat

text \<open>
  \<^verbatim>\<open>pd.DataFrame(news_items)\<close> for a list of dictionaries: one row per dictionary,
  labelled from 0; the columns are the keys in the order in which they first occur, a
  missing entry is \<^verbatim>\<open>nan\<close>. The empty list gives the frame without rows and columns.
\<close>

definition item_keys :: "item list \<Rightarrow> string list" where
  "item_keys items = rev (remdups (rev (concat (map (map fst) items))))"

definition DataFrame :: "item list \<Rightarrow> frame" where
  "DataFrame items =
     \<lparr>index = [0..<length items],
      cols = map (\<lambda>k. (k, map (\<lambda>it. case map_of it k of None \<Rightarrow> PNaN | Some v \<Rightarrow> v) items))
               (item_keys items)\<rparr>"

definition placeholder :: "string \<Rightarrow> string \<Rightarrow> string" where
  "placeholder url e = ''Error when downloading and parsing article from '' @ url @ '': '' @ e"

definition first_image :: "article \<Rightarrow> pyval" where
  "first_image a = (case article_images a of [] \<Rightarrow> PNone | im # _ \<Rightarrow> PStr im)"

text \<open>
  The loop of lines 39 to 62 over the url column, with the two lists it appends to.
  \<^verbatim>\<open>Article(url)\<close> on line 41 stands before the \<^verbatim>\<open>try\<close>; for a url that is not a
  string (which the search client does not produce) the model stops with a
  \<^verbatim>\<open>TypeError\<close> there.
\<close>

fun fetch_loop ::
  "'w env \<Rightarrow> pyval list \<Rightarrow> pyval list \<Rightarrow> pyval list \<Rightarrow> 'w io
     \<Rightarrow> (error + pyval list \<times> pyval list) \<times> 'w io" where
  "fetch_loop env [] full_texts image_urls s = (Inr (full_texts, image_urls), s)"
| "fetch_loop env (PStr url # urls) full_texts image_urls s =
     (case download_parse env url (world s) of
        (Inr a, w') \<Rightarrow>
          fetch_loop env urls
            (full_texts @ [PStr (article_text a)])
            (image_urls @ [first_image a])
            (s\<lparr>world := w', slept := slept s + 10\<rparr>)
      | (Inl e, w') \<Rightarrow>
          fetch_loop env urls
            (full_texts @ [PStr (placeholder url e)])
            (image_urls @ [PStr (placeholder url e)])
            (s\<lparr>world := w', stdout := stdout s @ [placeholder url e],
               slept := slept s + 10\<rparr>))"
| "fetch_loop env (_ # urls) full_texts image_urls s =
     (Inl (TypeError ''url is not a string''), s)"

text \<open>\<^verbatim>\<open>df[name] = scalar\<close>: the value in every row.\<close>

definition setitem_scalar :: "string \<Rightarrow> pyval \<Rightarrow> frame \<Rightarrow> error + frame" where
  "setitem_scalar name v df = setitem name (replicate (length (index df)) v) df"

definition fetch_daily_stock_articles ::
  "'w env \<Rightarrow> string \<Rightarrow> int \<Rightarrow> int \<Rightarrow> 'w io \<Rightarrow> (error + frame) \<times> 'w io" where
  "fetch_daily_stock_articles env stock_code n_days max_articles s =
     (case get_news env stock_code n_days max_articles (world s) of
        (Inl e, w') \<Rightarrow> (Inl e, s\<lparr>world := w'\<rparr>)
      | (Inr news_items, w') \<Rightarrow>
          (case getitem ''url'' (DataFrame news_items) of
             Inl e \<Rightarrow> (Inl e, s\<lparr>world := w'\<rparr>)
           | Inr urls \<Rightarrow>
               (case fetch_loop env urls [] [] (s\<lparr>world := w'\<rparr>) of
                  (Inl e, s') \<Rightarrow> (Inl e, s')
                | (Inr (full_texts, image_urls), s') \<Rightarrow>
                    (and_then (setitem ''full_text'' full_texts (DataFrame news_items)) (\<lambda>df1.
                     and_then (setitem ''image_url'' image_urls df1) (\<lambda>df2.
                     setitem_scalar ''entity'' (PStr stock_code) df2)), s'))))"

text \<open>
  The outcomes of the article client along a run of the loop, in order: what the
  environment answers for each url, from the state the previous call left.
\<close>

fun outcomes :: "'w env \<Rightarrow> string list \<Rightarrow> 'w \<Rightarrow> (string + article) list" where
  "outcomes env [] w = []"
| "outcomes env (u # us) w =
     (case download_parse env u w of (r, w') \<Rightarrow> r # outcomes env us w')"

section \<open>Notions used in the statements\<close>

definition has_marker :: "pyval \<Rightarrow> bool" where
  "has_marker v = (case v of PStr s \<Rightarrow> contains s failure_marker | _ \<Rightarrow> False)"

definition is_str :: "pyval \<Rightarrow> bool" where
  "is_str v = (case v of PStr s \<Rightarrow> True | _ \<Rightarrow> False)"

definition survivors :: "pyval list \<Rightarrow> bool list" where
  "survivors texts = map (\<lambda>v. \<not> has_marker v) texts"

definition clean_text :: "string \<Rightarrow> string" where
  "clean_text s = replace_char BACKSLASH [] (replace_char CR ''||'' (replace_char LF ''||'' s))"

definition clean_value :: "pyval \<Rightarrow> pyval" where
  "clean_value v = (case v of PStr s \<Rightarrow> PStr (clean_text s) | _ \<Rightarrow> v)"

definition single :: "string \<Rightarrow> frame \<Rightarrow> bool" where
  "single n df \<longleftrightarrow> length (filter (\<lambda>c. fst c = n) (cols df)) \<le> 1"


text \<open>What the loop of the Fetcher records for a url, given the outcome of its download.\<close>

definition recorded_text :: "string \<Rightarrow> string + article \<Rightarrow> pyval" where
  "recorded_text url r =
     (case r of Inl e \<Rightarrow> PStr (placeholder url e) | Inr a \<Rightarrow> PStr (article_text a))"

definition recorded_image :: "string \<Rightarrow> string + article \<Rightarrow> pyval" where
  "recorded_image url r =
     (case r of Inl e \<Rightarrow> PStr (placeholder url e) | Inr a \<Rightarrow> first_image a)"

section \<open>A run of the Cleaner\<close>

text \<open>
  A date parser that knows two date strings of the form the search client emits, and the
  empty string as a missing date. The raw table has three rows; the fetch of the second
  failed.
\<close>

definition parse_example :: "string \<Rightarrow> parsed" where
  "parse_example s =
     (if s = ''Mon, 04 Nov 2024 08:30:00 GMT'' then Parsed (Timestamp (Date 2024 11 4) 8 30 0)
      else if s = ''Tue, 05 Nov 2024 23:59:59 GMT'' then Parsed (Timestamp (Date 2024 11 5) 23 59 59)
      else if s = [] then Missing
      else Unparseable)"

definition kompas :: pyval where
  "kompas = PDict [(''title'', PStr ''Kompas''), (''href'', PStr ''https://kompas.com'')]"

definition raw_example :: frame where
  "raw_example =
     \<lparr>index = [0, 1, 2],
      cols =
       [(''title'', [PStr ''a'', PStr ''b'', PStr ''c'']),
        (''description'', [PStr ''da'', PStr ''db'', PStr ''dc'']),
        (''published date'',
           [PStr ''Mon, 04 Nov 2024 08:30:00 GMT'', PStr ''Mon, 04 Nov 2024 08:30:00 GMT'',
            PStr ''Tue, 05 Nov 2024 23:59:59 GMT'']),
        (''url'', [PStr ''http://a'', PStr ''http://x'', PStr ''http://c'']),
        (''publisher'', [kompas, kompas, kompas]),
        (''full_text'',
           [PStr (''line1'' @ [LF] @ ''line2'' @ [CR, LF]),
            PStr ''Error when downloading and parsing article from http://x: timeout'',
            PStr (''a'' @ [BACKSLASH] @ ''b'')]),
        (''image_url'',
           [PNone, PStr ''Error when downloading and parsing article from http://x: timeout'',
            PStr ''http://c/i.png'']),
        (''entity'', [PStr ''BBCA'', PStr ''BBCA'', PStr ''BBCA''])]\<rparr>"

definition cleaned_example :: frame where
  "cleaned_example =
     \<lparr>index = [0, 2],
      cols =
       [(''entity'', [PStr ''BBCA'', PStr ''BBCA'']),
        (''source_publisher'', [PStr ''Kompas'', PStr ''Kompas'']),
        (''title'', [PStr ''a'', PStr ''c'']),
        (''full_text'', [PStr ''line1||line2||||'', PStr ''ab'']),
        (''url'', [PStr ''http://a'', PStr ''http://c'']),
        (''published_time'',
           [PTimestamp (Timestamp (Date 2024 11 4) 8 30 0),
            PTimestamp (Timestamp (Date 2024 11 5) 23 59 59)]),
        (''published_date'', [PDate (Date 2024 11 4), PDate (Date 2024 11 5)]),
        (''image_url'', [PNone, PStr ''http://c/i.png''])]\<rparr>"

text \<open>
  The raw table with an unreadable date in its first row, and with no publisher in its
  last row.
\<close>

definition bad_date_example :: frame where
  "bad_date_example =
     raw_example\<lparr>cols :=
       map (\<lambda>c. if fst c = ''published date''
                 then (fst c, [PStr ''yesterday'', PStr [], PStr []]) else c)
         (cols raw_example)\<rparr>"

definition no_publisher_example :: frame where
  "no_publisher_example =
     raw_example\<lparr>cols :=
       map (\<lambda>c. if fst c = ''publisher'' then (fst c, [kompas, kompas, PNone]) else c)
         (cols raw_example)\<rparr>"

section \<open>Runs of the Fetcher\<close>

text \<open>
  A world that counts the calls made to it. The search of \<open>no_results\<close> finds nothing.
  The search of \<open>two_results\<close> finds two articles; the download of the first works, that
  of the second times out.
\<close>

definition start :: "nat io" where
  "start = \<lparr>world = 0, stdout = [], slept = 0\<rparr>"

definition no_results :: "nat env" where
  "no_results =
     \<lparr>get_news = (\<lambda>query n_days max_articles w. (Inr [], Suc w)),
      download_parse = (\<lambda>url w. (Inl ''unreachable'', Suc w))\<rparr>"

definition item_a :: item where
  "item_a =
     [(''title'', PStr ''a''), (''description'', PStr ''da''),
      (''published date'', PStr ''Mon, 04 Nov 2024 08:30:00 GMT''),
      (''url'', PStr ''http://a''), (''publisher'', kompas)]"

definition item_x :: item where
  "item_x =
     [(''title'', PStr ''b''), (''description'', PStr ''db''),
      (''published date'', PStr ''Mon, 04 Nov 2024 08:30:00 GMT''),
      (''url'', PStr ''http://x''), (''publisher'', kompas)]"

definition two_results :: "nat env" where
  "two_results =
     \<lparr>get_news = (\<lambda>query n_days max_articles w. (Inr [item_a, item_x], Suc w)),
      download_parse = (\<lambda>url w.
        (if url = ''http://a''
         then Inr \<lparr>article_text = ''line1'', article_images = [''http://a/i.png'']\<rparr>
         else Inl ''timeout'', Suc w))\<rparr>"

section \<open>Facts about the frame operations\<close>

lemma and_then_Inl [simp]: "and_then (Inl e) f = Inl e"
  by (simp add: and_then_def)

lemma and_then_Inr [simp]: "and_then (Inr x) f = f x"
  by (simp add: and_then_def)

lemma and_then_Inr_iff: "and_then m f = Inr y \<longleftrightarrow> (\<exists>x. m = Inr x \<and> f x = Inr y)"
  by (cases m) simp_all

lemma select_Nil [simp]: "select [] xs = []" "select keep [] = []"
  by (simp_all add: select_def)

lemma select_Cons [simp]:
  "select (k # keep) (x # xs) = (if k then x # select keep xs else select keep xs)"
  by (simp add: select_def)

lemma select_map: "select keep (map f xs) = map f (select keep xs)"
  by (induction keep xs rule: list_induct2') simp_all

lemma select_map_filter: "select (map P xs) xs = filter P xs"
  by (induction xs) simp_all

lemma length_select: "length keep = length xs \<Longrightarrow> length (select keep xs) = length (filter id keep)"
  by (induction keep xs rule: list_induct2) simp_all

lemma set_select: "set (select keep xs) \<subseteq> set xs"
  by (induction keep xs rule: list_induct2') auto

lemma select_nth:
  "i < length keep \<Longrightarrow> length keep = length xs \<Longrightarrow> keep ! i \<Longrightarrow> xs ! i \<in> set (select keep xs)"
proof (induction keep xs arbitrary: i rule: list_induct2')
  case (4 k keep x xs)
  then show ?case by (cases i) auto
qed simp_all

lemma invert_str_contains:
  "invert (str_contains pat vals) = Inr keep \<longleftrightarrow>
     list_all is_str vals \<and>
     keep = map (\<lambda>v. \<not> (case v of PStr s \<Rightarrow> contains s pat | _ \<Rightarrow> False)) vals"
proof (induction vals arbitrary: keep)
  case Nil
  then show ?case by (auto simp: str_contains_def)
next
  case (Cons v vs)
  then show ?case
    by (cases v) (auto simp: str_contains_def is_str_def and_then_Inr_iff)
qed

lemma invert_marker:
  "invert (str_contains failure_marker texts) = Inr keep \<longleftrightarrow>
     list_all is_str texts \<and> keep = survivors texts"
  by (simp add: invert_str_contains survivors_def has_marker_def)

lemma filter_fst_single: "filter (\<lambda>c. fst c = n) cs = [c] \<Longrightarrow> fst c = n"
proof -
  assume "filter (\<lambda>c. fst c = n) cs = [c]"
  then have "c \<in> set (filter (\<lambda>c. fst c = n) cs)" by simp
  then show ?thesis by simp
qed

lemma filter_absent: "m \<notin> fst ` set cs \<Longrightarrow> filter (\<lambda>c. fst c = m) cs = []"
  by (auto simp: filter_empty_conv)

lemma getitem_Inr: "getitem n df = Inr v \<longleftrightarrow> filter (\<lambda>c. fst c = n) (cols df) = [(n, v)]"
proof (cases "filter (\<lambda>c. fst c = n) (cols df)")
  case Nil
  then show ?thesis by (simp add: getitem_def)
next
  case (Cons c rest)
  then have "c \<in> set (filter (\<lambda>c. fst c = n) (cols df))" by simp
  then have "fst c = n" by simp
  with Cons show ?thesis by (cases rest; cases c) (auto simp: getitem_def)
qed

lemma getitem_KeyError:
  "getitem n df = Inl (KeyError m) \<longleftrightarrow> filter (\<lambda>c. fst c = n) (cols df) = [] \<and> m = n"
  by (auto simp: getitem_def split: list.splits)

lemma getitem_single: "getitem n df = Inr v \<Longrightarrow> single n df"
  by (simp add: getitem_Inr single_def)

lemma single_cases:
  "single n df \<Longrightarrow> (\<exists>v. getitem n df = Inr v) \<or> getitem n df = Inl (KeyError n)"
proof (cases "filter (\<lambda>c. fst c = n) (cols df)")
  case Nil
  then show ?thesis by (simp add: getitem_KeyError)
next
  case (Cons c rest)
  assume "single n df"
  with Cons have f: "filter (\<lambda>c. fst c = n) (cols df) = [c]" by (simp add: single_def)
  from filter_fst_single [OF f] have "c = (n, snd c)" by (cases c) simp
  with f have "getitem n df = Inr (snd c)" by (simp add: getitem_Inr)
  then show ?thesis by blast
qed

lemma distinct_filter_fst: "distinct (map fst cs) \<Longrightarrow> length (filter (\<lambda>c. fst c = n) cs) \<le> 1"
proof (induction cs)
  case (Cons c cs)
  from Cons.prems have "fst c \<notin> fst ` set cs" by simp
  then have "filter (\<lambda>x. fst x = fst c) cs = []" by (rule filter_absent)
  with Cons show ?case by (cases "fst c = n") simp_all
qed simp

lemma wf_single: "wf_frame df \<Longrightarrow> single n df"
  using distinct_filter_fst [of "cols df" n] by (simp add: wf_frame_def single_def)

lemma wf_length: "wf_frame df \<Longrightarrow> getitem n df = Inr v \<Longrightarrow> length v = length (index df)"
proof -
  assume wf: "wf_frame df" and g: "getitem n df = Inr v"
  from g have "(n, v) \<in> set (filter (\<lambda>c. fst c = n) (cols df))" by (simp add: getitem_Inr)
  then have "(n, v) \<in> set (cols df)" by simp
  with wf show ?thesis by (auto simp: wf_frame_def list_all_iff)
qed

subsection \<open>Selecting rows with a mask\<close>

lemma filter_map_snd:
  "filter (\<lambda>c. fst c = n) (map (\<lambda>c. (fst c, g (snd c))) cs) =
     map (\<lambda>c. (fst c, g (snd c))) (filter (\<lambda>c. fst c = n) cs)"
  by (induction cs) simp_all

lemma getitem_mask_index: "getitem_mask keep df = Inr df' \<Longrightarrow> index df' = select keep (index df)"
  by (auto simp: getitem_mask_def split: if_splits)

lemma getitem_mask_single: "getitem_mask keep df = Inr df' \<Longrightarrow> single n df' = single n df"
  by (auto simp: getitem_mask_def single_def filter_map_snd split: if_splits)

lemma getitem_mask_getitem:
  "getitem_mask keep df = Inr df' \<Longrightarrow> getitem n df' = map_sum id (select keep) (getitem n df)"
  by (auto simp: getitem_mask_def getitem_def filter_map_snd split: if_splits list.splits)

subsection \<open>Assigning a column\<close>

lemma setitem_index: "setitem m vals df = Inr df' \<Longrightarrow> index df' = index df"
  by (auto simp: setitem_def split: if_splits)

lemma filter_replace_other:
  "n \<noteq> m \<Longrightarrow> filter (\<lambda>c. fst c = n) (map (\<lambda>c. if fst c = m then (m, vals) else c) cs) =
     filter (\<lambda>c. fst c = n) cs"
  by (induction cs) auto

lemma filter_replace_same:
  "filter (\<lambda>c. fst c = m) (map (\<lambda>c. if fst c = m then (m, vals) else c) cs) =
     map (\<lambda>c. (m, vals)) (filter (\<lambda>c. fst c = m) cs)"
  by (induction cs) auto

lemma setitem_cols:
  "setitem m vals df = Inr df' \<Longrightarrow>
   cols df' = (if m \<in> fst ` set (cols df)
               then map (\<lambda>c. if fst c = m then (m, vals) else c) (cols df)
               else cols df @ [(m, vals)])"
  by (auto simp: setitem_def split: if_splits)

lemma setitem_filter_other:
  assumes "setitem m vals df = Inr df'" and "n \<noteq> m"
  shows "filter (\<lambda>c. fst c = n) (cols df') = filter (\<lambda>c. fst c = n) (cols df)"
proof (cases "m \<in> fst ` set (cols df)")
  case True
  with setitem_cols [OF assms(1)] assms(2) show ?thesis
    by (simp add: filter_replace_other)
next
  case False
  with setitem_cols [OF assms(1)] assms(2) show ?thesis by simp
qed

lemma setitem_filter_same:
  assumes "setitem m vals df = Inr df'"
  shows "filter (\<lambda>c. fst c = m) (cols df') =
    (if m \<in> fst ` set (cols df) then map (\<lambda>c. (m, vals)) (filter (\<lambda>c. fst c = m) (cols df))
     else [(m, vals)])"
proof (cases "m \<in> fst ` set (cols df)")
  case True
  with setitem_cols [OF assms] show ?thesis
    by (simp add: filter_replace_same)
next
  case False
  with setitem_cols [OF assms] show ?thesis by (simp add: filter_absent)
qed

lemma setitem_other:
  "setitem m vals df = Inr df' \<Longrightarrow> n \<noteq> m \<Longrightarrow> getitem n df' = getitem n df"
  by (simp add: getitem_def setitem_filter_other)

lemma setitem_single:
  "setitem m vals df = Inr df' \<Longrightarrow> single n df \<Longrightarrow> single n df'"
  by (cases "n = m") (simp_all add: single_def setitem_filter_other setitem_filter_same)

lemma setitem_same:
  assumes "setitem m vals df = Inr df'" and "single m df"
  shows "getitem m df' = Inr vals"
proof (cases "m \<in> fst ` set (cols df)")
  case True
  then have "filter (\<lambda>c. fst c = m) (cols df) \<noteq> []"
    by (simp add: filter_empty_conv) force
  with assms(2) obtain c where "filter (\<lambda>c. fst c = m) (cols df) = [c]"
    by (cases "filter (\<lambda>c. fst c = m) (cols df)") (simp_all add: single_def)
  with setitem_filter_same [OF assms(1)] True show ?thesis
    by (simp add: getitem_Inr)
next
  case False
  with setitem_filter_same [OF assms(1)] show ?thesis
    by (simp add: getitem_Inr)
qed

subsection \<open>Renaming a column\<close>

lemma rename_index [simp]: "index (rename old new df) = index df"
  by (simp add: rename_def)

lemma filter_rename_other:
  "n \<noteq> old \<Longrightarrow> n \<noteq> new \<Longrightarrow>
   filter (\<lambda>c. fst c = n) (map (\<lambda>c. (if fst c = old then new else fst c, snd c)) cs) =
     filter (\<lambda>c. fst c = n) cs"
  by (induction cs) auto

lemma rename_other:
  "n \<noteq> old \<Longrightarrow> n \<noteq> new \<Longrightarrow> getitem n (rename old new df) = getitem n df"
  by (simp add: getitem_def rename_def filter_rename_other)

lemma rename_single:
  "n \<noteq> old \<Longrightarrow> n \<noteq> new \<Longrightarrow> single n (rename old new df) = single n df"
  by (simp add: single_def rename_def filter_rename_other)

lemma filter_rename_new:
  "old \<noteq> new \<Longrightarrow>
   filter (\<lambda>c. fst c = new) (map (\<lambda>c. (if fst c = old then new else fst c, snd c)) cs) = [(new, v)] \<Longrightarrow>
     (filter (\<lambda>c. fst c = old) cs = [(old, v)] \<and> filter (\<lambda>c. fst c = new) cs = []) \<or>
     (filter (\<lambda>c. fst c = new) cs = [(new, v)] \<and> filter (\<lambda>c. fst c = old) cs = [])"
proof (induction cs)
  case Nil
  then show ?case by simp
next
  case (Cons c cs)
  show ?case
  proof (cases "fst c = old \<or> fst c = new")
    case True
    with Cons.prems have rest: "filter (\<lambda>c. fst c = new) (map (\<lambda>c. (if fst c = old then new else fst c, snd c)) cs) = []"
      and v: "snd c = v"
      by (auto split: if_splits)
    from rest have "\<forall>c\<in>set cs. fst c \<noteq> old \<and> fst c \<noteq> new"
      by (auto simp: filter_empty_conv split: if_splits)
    then have "filter (\<lambda>c. fst c = old) cs = []" "filter (\<lambda>c. fst c = new) cs = []"
      by (auto simp: filter_empty_conv)
    with True v Cons.prems(1) show ?thesis by (cases c) auto
  next
    case False
    with Cons show ?thesis by auto
  qed
qed

lemma rename_new:
  assumes "old \<noteq> new" and "getitem new (rename old new df) = Inr v"
  shows "(getitem old df = Inr v \<and> getitem new df = Inl (KeyError new)) \<or>
         (getitem new df = Inr v \<and> getitem old df = Inl (KeyError old))"
  using filter_rename_new [OF assms(1), of "cols df" v] assms(2)
  by (simp add: getitem_Inr getitem_KeyError rename_def)

subsection \<open>Taking a list of columns\<close>

lemma take_columns_single:
  "take_columns names cs = Inr res \<Longrightarrow>
   \<forall>n\<in>set names. length (filter (\<lambda>c. fst c = n) cs) \<le> 1 \<Longrightarrow>
   list_all2 (\<lambda>n c. filter (\<lambda>c. fst c = n) cs = [c]) names res"
proof (induction names arbitrary: res)
  case Nil
  then show ?case by simp
next
  case (Cons n ns)
  from Cons.prems(2) have le: "length (filter (\<lambda>c. fst c = n) cs) \<le> 1" by simp
  from Cons.prems(1) obtain c rest where
    c: "filter (\<lambda>c. fst c = n) cs = [c]" and rest: "take_columns ns cs = Inr rest"
    and res: "res = c # rest"
    using le by (cases "filter (\<lambda>c. fst c = n) cs") (auto simp: and_then_Inr_iff)
  with Cons show ?case by simp
qed

lemma getitem_list_explicit:
  assumes "getitem_list names df = Inr out"
    and "\<forall>n\<in>set names. single n df"
  shows "index out = index df"
    and "list_all2 (\<lambda>n c. getitem n df = Inr (snd c) \<and> fst c = n) names (cols out)"
proof -
  from assms(1) obtain res where res: "take_columns names (cols df) = Inr res"
    and out: "out = \<lparr>index = index df, cols = res\<rparr>"
    by (auto simp: getitem_list_def and_then_Inr_iff)
  from out show "index out = index df" by simp
  from assms(2) have le: "\<forall>n\<in>set names. length (filter (\<lambda>c. fst c = n) (cols df)) \<le> 1"
    by (simp add: single_def)
  have imp: "getitem n df = Inr (snd c) \<and> fst c = n"
    if f: "filter (\<lambda>c. fst c = n) (cols df) = [c]" for n c
  proof -
    from filter_fst_single [OF f] have "c = (n, snd c)" by (cases c) simp
    with f filter_fst_single [OF f] show ?thesis by (simp add: getitem_Inr)
  qed
  from take_columns_single [OF res le]
  have L: "list_all2 (\<lambda>n c. filter (\<lambda>c. fst c = n) (cols df) = [c]) names res" .
  have "list_all2 (\<lambda>n c. getitem n df = Inr (snd c) \<and> fst c = n) names res"
    by (rule list_all2_mono [OF L]) (rule imp)
  with out show "list_all2 (\<lambda>n c. getitem n df = Inr (snd c) \<and> fst c = n) names (cols out)"
    by simp
qed

lemma replace_regex_clean:
  "replace_regex BACKSLASH [] (replace_regex CR ''||'' (replace_regex LF ''||'' vals)) =
     map clean_value vals"
  by (auto simp: replace_regex_def clean_value_def clean_text_def split: pyval.splits)


section \<open>When the Cleaner returns a table\<close>

lemma getitem_mask_Inr:
  assumes "getitem_mask keep df = Inr df'" and "getitem n df' = Inr v"
  obtains v0 where "getitem n df = Inr v0" and "v = select keep v0"
  using assms by (cases "getitem n df") (simp_all add: getitem_mask_getitem)

lemma cleaning_steps:
  assumes "cleaning_fetched_articles parse raw = Inr out"
  obtains texts keep df1 t1 df2 t2 df3 t3 df4 pubs names df6 times stamps df7 stamps' dates df8
  where "getitem ''full_text'' raw = Inr texts"
    and "invert (str_contains failure_marker texts) = Inr keep"
    and "getitem_mask keep raw = Inr df1"
    and "getitem ''full_text'' df1 = Inr t1"
    and "setitem ''full_text'' (replace_regex LF ''||'' t1) df1 = Inr df2"
    and "getitem ''full_text'' df2 = Inr t2"
    and "setitem ''full_text'' (replace_regex CR ''||'' t2) df2 = Inr df3"
    and "getitem ''full_text'' df3 = Inr t3"
    and "setitem ''full_text'' (replace_regex BACKSLASH [] t3) df3 = Inr df4"
    and "getitem ''publisher'' (rename ''published date'' ''published_time'' df4) = Inr pubs"
    and "apply_series (subscript ''title'') pubs = Inr names"
    and "setitem ''source_publisher'' names (rename ''published date'' ''published_time'' df4) = Inr df6"
    and "getitem ''published_time'' df6 = Inr times"
    and "to_datetime parse times = Inr stamps"
    and "setitem ''published_time'' stamps df6 = Inr df7"
    and "getitem ''published_time'' df7 = Inr stamps'"
    and "dt_date stamps' = Inr dates"
    and "setitem ''published_date'' dates df7 = Inr df8"
    and "getitem_list cleaned_columns df8 = Inr out"
  using assms unfolding cleaning_fetched_articles_def and_then_Inr_iff by blast


lemma cleaning_success:
  assumes wf: "wf_frame raw" and ok: "cleaning_fetched_articles parse raw = Inr out"
  obtains texts pubs times ents titles urls images names stamps dates where
    "getitem ''full_text'' raw = Inr texts" and "list_all is_str texts"
    and "getitem ''publisher'' raw = Inr pubs"
    and "getitem ''entity'' raw = Inr ents" and "getitem ''title'' raw = Inr titles"
    and "getitem ''url'' raw = Inr urls" and "getitem ''image_url'' raw = Inr images"
    and "(getitem ''published date'' raw = Inr times \<and>
            getitem ''published_time'' raw = Inl (KeyError ''published_time'')) \<or>
         (getitem ''published_time'' raw = Inr times \<and>
            getitem ''published date'' raw = Inl (KeyError ''published date''))"
    and "apply_series (subscript ''title'') (select (survivors texts) pubs) = Inr names"
    and "to_datetime parse (select (survivors texts) times) = Inr stamps"
    and "dt_date stamps = Inr dates"
    and "out = \<lparr>index = select (survivors texts) (index raw),
                cols = [(''entity'', select (survivors texts) ents),
                        (''source_publisher'', names),
                        (''title'', select (survivors texts) titles),
                        (''full_text'', map clean_value (select (survivors texts) texts)),
                        (''url'', select (survivors texts) urls),
                        (''published_time'', stamps),
                        (''published_date'', dates),
                        (''image_url'', select (survivors texts) images)]\<rparr>"
proof -
  from ok obtain texts keep df1 t1 df2 t2 df3 t3 df4 pubs1 names df6 times1 stamps df7 stamps' dates df8
    where texts: "getitem ''full_text'' raw = Inr texts"
      and keep: "invert (str_contains failure_marker texts) = Inr keep"
      and df1: "getitem_mask keep raw = Inr df1"
      and t1: "getitem ''full_text'' df1 = Inr t1"
      and df2: "setitem ''full_text'' (replace_regex LF ''||'' t1) df1 = Inr df2"
      and t2: "getitem ''full_text'' df2 = Inr t2"
      and df3: "setitem ''full_text'' (replace_regex CR ''||'' t2) df2 = Inr df3"
      and t3: "getitem ''full_text'' df3 = Inr t3"
      and df4: "setitem ''full_text'' (replace_regex BACKSLASH [] t3) df3 = Inr df4"
      and pubs1: "getitem ''publisher'' (rename ''published date'' ''published_time'' df4) = Inr pubs1"
      and names: "apply_series (subscript ''title'') pubs1 = Inr names"
      and df6: "setitem ''source_publisher'' names (rename ''published date'' ''published_time'' df4) = Inr df6"
      and times1: "getitem ''published_time'' df6 = Inr times1"
      and stamps: "to_datetime parse times1 = Inr stamps"
      and df7: "setitem ''published_time'' stamps df6 = Inr df7"
      and stamps': "getitem ''published_time'' df7 = Inr stamps'"
      and dates: "dt_date stamps' = Inr dates"
      and df8: "setitem ''published_date'' dates df7 = Inr df8"
      and out: "getitem_list cleaned_columns df8 = Inr out"
    by (rule cleaning_steps)
  let ?df5 = "rename ''published date'' ''published_time'' df4"
  from keep have strs: "list_all is_str texts" and keep_eq: "keep = survivors texts"
    by (simp_all add: invert_marker)
  \<comment> \<open>every label stays single\<close>
  have s1: "single n df1" for n
    using getitem_mask_single [OF df1] wf_single [OF wf] by simp
  have s4: "single n df4" for n
    by (intro setitem_single [OF df4] setitem_single [OF df3] setitem_single [OF df2] s1)
  \<comment> \<open>the text column\<close>
  from getitem_mask_Inr [OF df1 t1] texts have t1_eq: "t1 = select keep texts" by auto
  from setitem_same [OF df2 s1] t2 have t2_eq: "t2 = replace_regex LF ''||'' t1" by simp
  from setitem_same [OF df3 setitem_single [OF df2 s1]] t3
  have t3_eq: "t3 = replace_regex CR ''||'' t2" by simp
  have ft4: "getitem ''full_text'' df4 = Inr (map clean_value (select keep texts))"
    using setitem_same [OF df4 setitem_single [OF df3 setitem_single [OF df2 s1]]]
    by (simp add: t3_eq t2_eq t1_eq replace_regex_clean)
  \<comment> \<open>the columns that the text steps leave alone\<close>
  have other4: "getitem n df4 = map_sum id (select keep) (getitem n raw)" if "n \<noteq> ''full_text''" for n
    using that setitem_other [OF df4, of n] setitem_other [OF df3, of n] setitem_other [OF df2, of n]
      getitem_mask_getitem [OF df1, of n] by simp
  have other5: "getitem n ?df5 = getitem n df4"
    if "n \<noteq> ''published date''" "n \<noteq> ''published_time''" for n
    using that by (rule rename_other)
  have s5: "single n ?df5" if "n \<noteq> ''published date''" "n \<noteq> ''published_time''" for n
    using that s4 by (simp add: rename_single)
  \<comment> \<open>publisher\<close>
  from pubs1 have "map_sum id (select keep) (getitem ''publisher'' raw) = Inr pubs1"
    by (simp add: other5 other4)
  then obtain pubs where pubs: "getitem ''publisher'' raw = Inr pubs"
    and pubs1_eq: "pubs1 = select keep pubs"
    by (cases "getitem ''publisher'' raw") auto
  \<comment> \<open>the published time\<close>
  from times1 have pt5: "getitem ''published_time'' ?df5 = Inr times1"
    by (simp add: setitem_other [OF df6])
  have "(getitem ''published date'' df4 = Inr times1 \<and>
           getitem ''published_time'' df4 = Inl (KeyError ''published_time'')) \<or>
        (getitem ''published_time'' df4 = Inr times1 \<and>
           getitem ''published date'' df4 = Inl (KeyError ''published date''))"
    by (rule rename_new [OF _ pt5]) simp
  then obtain times where times_eq: "times1 = select keep times"
    and times: "(getitem ''published date'' raw = Inr times \<and>
            getitem ''published_time'' raw = Inl (KeyError ''published_time'')) \<or>
         (getitem ''published_time'' raw = Inr times \<and>
            getitem ''published date'' raw = Inl (KeyError ''published date''))"
    by (cases "getitem ''published date'' raw"; cases "getitem ''published_time'' raw")
       (auto simp: other4)
  from getitem_single [OF times1] have s6pt: "single ''published_time'' df6" .
  from setitem_same [OF df7 s6pt] stamps' have stamps'_eq: "stamps' = stamps" by simp
  \<comment> \<open>the frame before the projection\<close>
  have g8_pt: "getitem ''published_time'' df8 = Inr stamps"
    using setitem_same [OF df7 s6pt] by (simp add: setitem_other [OF df8])
  have s7pd: "single ''published_date'' df7"
    by (intro setitem_single [OF df7] setitem_single [OF df6] s5) simp_all
  have g8_pd: "getitem ''published_date'' df8 = Inr dates"
    by (rule setitem_same [OF df8 s7pd])
  have s5sp: "single ''source_publisher'' ?df5" by (rule s5) simp_all
  have g8_sp: "getitem ''source_publisher'' df8 = Inr names"
    using setitem_same [OF df6 s5sp]
    by (simp add: setitem_other [OF df8] setitem_other [OF df7])
  have g8_ft: "getitem ''full_text'' df8 = Inr (map clean_value (select keep texts))"
    using ft4
    by (simp add: setitem_other [OF df8] setitem_other [OF df7] setitem_other [OF df6] other5)
  have g8_other: "getitem n df8 = map_sum id (select keep) (getitem n raw)"
    if "n \<in> {''entity'', ''title'', ''url'', ''image_url''}" for n
    using that
    by (auto simp: setitem_other [OF df8] setitem_other [OF df7] setitem_other [OF df6]
        other5 other4)
  have s8: "\<forall>n\<in>set cleaned_columns. single n df8"
  proof
    fix n assume n: "n \<in> set cleaned_columns"
    show "single n df8"
    proof (cases "n = ''published_time''")
      case True
      with g8_pt show ?thesis by (simp add: getitem_single)
    next
      case False
      with n have "single n ?df5" by (intro s5) (auto simp: cleaned_columns_def)
      then show ?thesis
        by (intro setitem_single [OF df8] setitem_single [OF df7] setitem_single [OF df6])
    qed
  qed
  from getitem_list_explicit [OF out s8]
  have idx: "index out = index df8"
    and L: "list_all2 (\<lambda>n c. getitem n df8 = Inr (snd c) \<and> fst c = n) cleaned_columns (cols out)"
    by simp_all
  from L obtain c1 c2 c3 c4 c5 c6 c7 c8 where
    cs: "cols out = [c1, c2, c3, c4, c5, c6, c7, c8]"
    and c1: "getitem ''entity'' df8 = Inr (snd c1)" "fst c1 = ''entity''"
    and c2: "getitem ''source_publisher'' df8 = Inr (snd c2)" "fst c2 = ''source_publisher''"
    and c3: "getitem ''title'' df8 = Inr (snd c3)" "fst c3 = ''title''"
    and c4: "getitem ''full_text'' df8 = Inr (snd c4)" "fst c4 = ''full_text''"
    and c5: "getitem ''url'' df8 = Inr (snd c5)" "fst c5 = ''url''"
    and c6: "getitem ''published_time'' df8 = Inr (snd c6)" "fst c6 = ''published_time''"
    and c7: "getitem ''published_date'' df8 = Inr (snd c7)" "fst c7 = ''published_date''"
    and c8: "getitem ''image_url'' df8 = Inr (snd c8)" "fst c8 = ''image_url''"
    unfolding cleaned_columns_def by (auto simp: list_all2_Cons1)
  from c1(1) obtain ents where ents: "getitem ''entity'' raw = Inr ents"
    and e1: "snd c1 = select keep ents"
    by (cases "getitem ''entity'' raw") (auto simp: g8_other)
  from c3(1) obtain titles where titles: "getitem ''title'' raw = Inr titles"
    and e3: "snd c3 = select keep titles"
    by (cases "getitem ''title'' raw") (auto simp: g8_other)
  from c5(1) obtain urls where urls: "getitem ''url'' raw = Inr urls"
    and e5: "snd c5 = select keep urls"
    by (cases "getitem ''url'' raw") (auto simp: g8_other)
  from c8(1) obtain images where images: "getitem ''image_url'' raw = Inr images"
    and e8: "snd c8 = select keep images"
    by (cases "getitem ''image_url'' raw") (auto simp: g8_other)
  from c2(1) g8_sp have e2: "snd c2 = names" by simp
  from c4(1) g8_ft have e4: "snd c4 = map clean_value (select keep texts)" by simp
  from c6(1) g8_pt have e6: "snd c6 = stamps" by simp
  from c7(1) g8_pd have e7: "snd c7 = dates" by simp
  have idx': "index out = select keep (index raw)"
    using idx setitem_index [OF df8] setitem_index [OF df7] setitem_index [OF df6]
      setitem_index [OF df4] setitem_index [OF df3] setitem_index [OF df2]
      getitem_mask_index [OF df1] by simp
  have final: "out = \<lparr>index = select keep (index raw),
                cols = [(''entity'', select keep ents),
                        (''source_publisher'', names),
                        (''title'', select keep titles),
                        (''full_text'', map clean_value (select keep texts)),
                        (''url'', select keep urls),
                        (''published_time'', stamps),
                        (''published_date'', dates),
                        (''image_url'', select keep images)]\<rparr>"
  proof -
    have "c1 = (''entity'', select keep ents)" using c1(2) e1 by (cases c1) simp
    moreover have "c2 = (''source_publisher'', names)" using c2(2) e2 by (cases c2) simp
    moreover have "c3 = (''title'', select keep titles)" using c3(2) e3 by (cases c3) simp
    moreover have "c4 = (''full_text'', map clean_value (select keep texts))"
      using c4(2) e4 by (cases c4) simp
    moreover have "c5 = (''url'', select keep urls)" using c5(2) e5 by (cases c5) simp
    moreover have "c6 = (''published_time'', stamps)" using c6(2) e6 by (cases c6) simp
    moreover have "c7 = (''published_date'', dates)" using c7(2) e7 by (cases c7) simp
    moreover have "c8 = (''image_url'', select keep images)" using c8(2) e8 by (cases c8) simp
    ultimately show ?thesis using cs idx' by (cases out) simp
  qed
  show ?thesis
  proof (rule that [OF texts strs pubs ents titles urls images times])
    show "apply_series (subscript ''title'') (select (survivors texts) pubs) = Inr names"
      using names by (simp add: pubs1_eq keep_eq)
    show "to_datetime parse (select (survivors texts) times) = Inr stamps"
      using stamps by (simp add: times_eq keep_eq)
    show "dt_date stamps = Inr dates"
      using dates by (simp add: stamps'_eq)
    show "out = \<lparr>index = select (survivors texts) (index raw),
                cols = [(''entity'', select (survivors texts) ents),
                        (''source_publisher'', names),
                        (''title'', select (survivors texts) titles),
                        (''full_text'', map clean_value (select (survivors texts) texts)),
                        (''url'', select (survivors texts) urls),
                        (''published_time'', stamps),
                        (''published_date'', dates),
                        (''image_url'', select (survivors texts) images)]\<rparr>"
      using final by (simp add: keep_eq)
  qed
qed

section \<open>The example run, substrings and row counts\<close>

lemmas run_defs =
  cleaning_fetched_articles_def and_then_def getitem_def setitem_def getitem_mask_def select_def
  rename_def getitem_list_def str_contains_def replace_regex_def replace_char_def to_datetime_def
  dt_date_def failure_marker_def LF_def CR_def BACKSLASH_def cleaned_columns_def

lemma raw_example_wf: "wf_frame raw_example"
  by (simp add: wf_frame_def raw_example_def)

lemma raw_example_run:
  "cleaning_fetched_articles parse_example raw_example = Inr cleaned_example"
  by (simp add: run_defs raw_example_def cleaned_example_def parse_example_def kompas_def)

lemma contains_startswith: "startswith s p \<longleftrightarrow> (\<exists>b. s = p @ b)"
  by (induction s p rule: startswith.induct) auto

lemma contains_iff: "contains s p \<longleftrightarrow> (\<exists>a b. s = a @ p @ b)"
proof (induction s)
  case Nil
  then show ?case by simp
next
  case (Cons c cs)
  show ?case
  proof
    assume "contains (c # cs) p"
    then consider "startswith (c # cs) p" | "contains cs p" by auto
    then show "\<exists>a b. c # cs = a @ p @ b"
    proof cases
      case 1
      then obtain b where "c # cs = p @ b" by (auto simp: contains_startswith)
      then have "c # cs = [] @ p @ b" by simp
      then show ?thesis by blast
    next
      case 2
      with Cons obtain a b where "cs = a @ p @ b" by auto
      then have "c # cs = (c # a) @ p @ b" by simp
      then show ?thesis by blast
    qed
  next
    assume "\<exists>a b. c # cs = a @ p @ b"
    then obtain a b where ab: "c # cs = a @ p @ b" by blast
    show "contains (c # cs) p"
    proof (cases a)
      case Nil
      with ab have "startswith (c # cs) p" by (auto simp: contains_startswith)
      then show ?thesis by simp
    next
      case (Cons x a')
      with ab have "cs = a' @ p @ b" by simp
      with Cons.IH have "contains cs p" by blast
      then show ?thesis by simp
    qed
  qed
qed

lemma select_zip:
  "select (map P ts) ls = map fst (filter (\<lambda>row. P (snd row)) (zip ls ts))"
  by (induction ls ts rule: list_induct2') simp_all

lemma select_survivors:
  "select (survivors texts) ls =
     map fst (filter (\<lambda>row. \<not> has_marker (snd row)) (zip ls texts))"
  unfolding survivors_def by (rule select_zip)

lemma length_survivors:
  "length ls = length texts \<Longrightarrow>
   length (select (survivors texts) ls) = length texts - length (filter has_marker texts)"
proof -
  assume "length ls = length texts"
  then have "length (select (survivors texts) ls) = length (filter id (survivors texts))"
    by (simp add: length_select survivors_def)
  also have "\<dots> = length (filter (\<lambda>v. \<not> has_marker v) texts)"
    by (simp add: survivors_def filter_map comp_def)
  also have "\<dots> = length texts - length (filter has_marker texts)"
    using sum_length_filter_compl [of has_marker texts] by simp
  finally show ?thesis .
qed

section \<open>Text cleaning, and what a successful column operation says of each entry\<close>

lemma replace_char_Nil [simp]: "replace_char c r [] = []"
  by (simp add: replace_char_def)

lemma replace_char_Cons [simp]:
  "replace_char c r (x # xs) = (if x = c then r else [x]) @ replace_char c r xs"
  by (simp add: replace_char_def)

lemma clean_text_pointwise:
  "clean_text s =
     concat (map (\<lambda>c. if c = LF \<or> c = CR then ''||'' else if c = BACKSLASH then [] else [c]) s)"
  by (induction s) (simp_all add: clean_text_def LF_def CR_def BACKSLASH_def)

lemma clean_text_Nil: "clean_text [] = []"
  by (simp add: clean_text_def)

lemma clean_text_Cons:
  "clean_text (c # s) =
     (if c = LF \<or> c = CR then ''||'' else if c = BACKSLASH then [] else [c]) @ clean_text s"
  by (simp add: clean_text_def LF_def CR_def BACKSLASH_def)

lemma clean_text_free:
  "LF \<notin> set (clean_text s) \<and> CR \<notin> set (clean_text s) \<and> BACKSLASH \<notin> set (clean_text s)"
proof (induction s)
  case Nil
  show ?case by (simp add: clean_text_Nil)
next
  case (Cons c s)
  have "LF \<noteq> CHR ''|''" "CR \<noteq> CHR ''|''" "BACKSLASH \<noteq> CHR ''|''"
    by (simp_all add: LF_def CR_def BACKSLASH_def)
  with Cons show ?case by (auto simp: clean_text_Cons)
qed

lemma clean_text_unchanged:
  "LF \<notin> set s \<Longrightarrow> CR \<notin> set s \<Longrightarrow> BACKSLASH \<notin> set s \<Longrightarrow> clean_text s = s"
  by (induction s) (auto simp: clean_text_Nil clean_text_Cons)

lemma cleaned_wf: "wf_frame cleaned_example"
  by (simp add: wf_frame_def cleaned_example_def)

lemma apply_series_all2:
  "apply_series f vs = Inr ys \<Longrightarrow> list_all2 (\<lambda>v y. f v = Inr y) vs ys"
  by (induction vs arbitrary: ys) (auto simp: and_then_Inr_iff)

lemma dt_date1_Inr:
  "dt_date1 v = Inr d \<Longrightarrow>
     (\<exists>t. v = PTimestamp t \<and> d = PDate (ts_date t)) \<or> (v = PNaT \<and> d = PNaT)"
  by (cases v) auto

lemma subscript_Inr:
  "subscript k v = Inr y \<Longrightarrow> \<exists>d. v = PDict d \<and> map_of d k = Some y"
  by (cases v) (auto split: option.splits)

lemma is_str_iff: "is_str v \<longleftrightarrow> (\<exists>s. v = PStr s)"
  by (cases v) (simp_all add: is_str_def)

lemma apply_series_member:
  "apply_series f vs = Inr ys \<Longrightarrow> v \<in> set vs \<Longrightarrow> \<exists>y. f v = Inr y"
  by (induction vs arbitrary: ys) (auto simp: and_then_Inr_iff)

lemma survivors_nth:
  "i < length texts \<Longrightarrow> survivors texts ! i = (\<not> has_marker (texts ! i))"
  by (simp add: survivors_def)

lemma survivor_kept:
  assumes "wf_frame raw" and "getitem ''full_text'' raw = Inr texts"
    and "getitem c raw = Inr vs" and "i < nrows raw" and "\<not> has_marker (texts ! i)"
  shows "vs ! i \<in> set (select (survivors texts) vs)"
proof -
  from wf_length [OF assms(1,2)] wf_length [OF assms(1,3)] assms(4)
  have "length texts = length vs" and i: "i < length texts"
    by (simp_all add: nrows_def)
  then show ?thesis
    using assms(5) by (intro select_nth) (simp_all add: survivors_def)
qed

lemma length_replace_regex [simp]: "length (replace_regex c r vs) = length vs"
  by (simp add: replace_regex_def)

lemma clean_cells_survive:
  "list_all (\<lambda>v. case v of
                   PStr s \<Rightarrow> \<not> contains s failure_marker \<and>
                     LF \<notin> set s \<and> CR \<notin> set s \<and> BACKSLASH \<notin> set s
                 | _ \<Rightarrow> False) texts \<Longrightarrow>
   list_all is_str texts \<and> survivors texts = replicate (length texts) True \<and>
   map clean_value texts = texts"
  by (induction texts)
     (auto simp: is_str_def survivors_def has_marker_def clean_value_def clean_text_unchanged
           split: pyval.splits)

lemma select_all [simp]: "length xs = n \<Longrightarrow> select (replicate n True) xs = xs"
  by (induction xs arbitrary: n) auto

section \<open>Running an action of the store model\<close>

lemma bind_new_st:
  "bind_st (new_st g r) k h =
     (case g (h ! r) of Inl e \<Rightarrow> (Inl e, h) | Inr f \<Rightarrow> k (length h) (h @ [f]))"
  by (simp add: bind_st_def new_st_def split: sum.splits)

lemma bind_read_st:
  "bind_st (read_st g r) k h = (case g (h ! r) of Inl e \<Rightarrow> (Inl e, h) | Inr x \<Rightarrow> k x h)"
  by (simp add: bind_st_def read_st_def split: sum.splits)

lemma bind_pure_st:
  "bind_st (pure_st v) k h = (case v of Inl e \<Rightarrow> (Inl e, h) | Inr x \<Rightarrow> k x h)"
  by (simp add: bind_st_def pure_st_def split: sum.splits)

lemma bind_write_st:
  "bind_st (write_st g r) k h =
     (case g (h ! r) of Inl e \<Rightarrow> (Inl e, h) | Inr f \<Rightarrow> k () (h[r := f]))"
  by (simp add: bind_st_def write_st_def split: sum.splits)

section \<open>Facts about the Fetcher\<close>

lemma distinct_item_keys: "distinct (item_keys items)"
  by (simp add: item_keys_def)

lemma set_item_keys: "set (item_keys items) = (\<Union>it\<in>set items. fst ` set it)"
  by (simp add: item_keys_def)

lemma DataFrame_wf: "wf_frame (DataFrame items)"
  by (simp add: wf_frame_def DataFrame_def comp_def distinct_item_keys list_all_iff)

lemma DataFrame_index: "index (DataFrame items) = [0..<length items]"
  by (simp add: DataFrame_def)

lemma filter_map_key:
  "distinct ks \<Longrightarrow> k \<in> set ks \<Longrightarrow>
   filter (\<lambda>c. fst c = k) (map (\<lambda>k. (k, f k)) ks) = [(k, f k)]"
proof (induction ks)
  case Nil
  then show ?case by simp
next
  case (Cons a ks)
  show ?case
  proof (cases "a = k")
    case True
    with Cons.prems have "k \<notin> set ks" by simp
    then have "filter (\<lambda>c. fst c = k) (map (\<lambda>k. (k, f k)) ks) = []"
      by (auto simp: filter_empty_conv)
    with True show ?thesis by simp
  next
    case False
    with Cons show ?thesis by simp
  qed
qed

lemma DataFrame_getitem:
  "k \<in> set (item_keys items) \<Longrightarrow>
   getitem k (DataFrame items) =
     Inr (map (\<lambda>it. case map_of it k of None \<Rightarrow> PNaN | Some v \<Rightarrow> v) items)"
  by (simp add: getitem_Inr DataFrame_def filter_map_key distinct_item_keys)

lemma length_outcomes [simp]: "length (outcomes env us w) = length us"
  by (induction us arbitrary: w) (simp_all split: prod.splits)

lemma fetch_loop_run:
  "fst (fetch_loop env (map PStr us) full_texts image_urls s) =
     Inr (full_texts @ map2 recorded_text us (outcomes env us (world s)),
          image_urls @ map2 recorded_image us (outcomes env us (world s)))"
proof (induction us arbitrary: full_texts image_urls s)
  case Nil
  then show ?case by simp
next
  case (Cons u us)
  obtain r w' where r: "download_parse env u (world s) = (r, w')"
    by (cases "download_parse env u (world s)")
  show ?case
  proof (cases r)
    case (Inl e)
    with r Cons.IH show ?thesis
      by (simp add: recorded_text_def recorded_image_def)
  next
    case (Inr a)
    with r Cons.IH show ?thesis
      by (simp add: recorded_text_def recorded_image_def)
  qed
qed

lemma fetch_loop_slept:
  "slept (snd (fetch_loop env (map PStr us) full_texts image_urls s)) = slept s + 10 * length us"
proof (induction us arbitrary: full_texts image_urls s)
  case Nil
  then show ?case by simp
next
  case (Cons u us)
  obtain r w' where r: "download_parse env u (world s) = (r, w')"
    by (cases "download_parse env u (world s)")
  with Cons.IH show ?case by (cases r) simp_all
qed

text \<open>
  When the search returns at least one result and every result has a string under
  \<open>url\<close>, the Fetcher returns a table: one row per result, labelled and ordered as the
  results are, with the cells of the results, the two columns the loop recorded, and the
  ticker in every row of \<open>entity\<close>. It has slept ten units per result.
\<close>

lemma fetcher_run:
  assumes search: "get_news env stock_code n_days max_articles (world s) = (Inr items, w)"
    and nonempty: "items \<noteq> []"
    and urls: "map (\<lambda>it. map_of it ''url'') items = map (\<lambda>u. Some (PStr u)) us"
  obtains df s' where
    "fetch_daily_stock_articles env stock_code n_days max_articles s = (Inr df, s')"
    and "index df = [0..<length items]"
    and "getitem ''full_text'' df = Inr (map2 recorded_text us (outcomes env us w))"
    and "getitem ''image_url'' df = Inr (map2 recorded_image us (outcomes env us w))"
    and "getitem ''entity'' df = Inr (replicate (length items) (PStr stock_code))"
    and "\<And>k. k \<in> set (item_keys items) \<Longrightarrow> k \<notin> {''full_text'', ''image_url'', ''entity''} \<Longrightarrow>
           getitem k df = Inr (map (\<lambda>it. case map_of it k of None \<Rightarrow> PNaN | Some v \<Rightarrow> v) items)"
    and "slept s' = slept s + 10 * length items"
proof -
  let ?df0 = "DataFrame items"
  let ?s0 = "s\<lparr>world := w\<rparr>"
  let ?texts = "map2 recorded_text us (outcomes env us w)"
  let ?images = "map2 recorded_image us (outcomes env us w)"
  from urls have "length (map (\<lambda>it. map_of it ''url'') items) = length (map (\<lambda>u. Some (PStr u)) us)"
    by (rule arg_cong)
  then have len: "length us = length items" by simp
  from nonempty obtain it rest where items: "items = it # rest" by (cases items) auto
  with urls obtain v where "map_of it ''url'' = Some v" by (cases us) auto
  then have "(''url'', v) \<in> set it" by (rule map_of_SomeD)
  then have "''url'' \<in> fst ` set it" by force
  with items have key: "''url'' \<in> set (item_keys items)" by (simp add: set_item_keys)
  have "map (\<lambda>it. case map_of it ''url'' of None \<Rightarrow> PNaN | Some v \<Rightarrow> v) items =
      map (\<lambda>x. case x of None \<Rightarrow> PNaN | Some v \<Rightarrow> v) (map (\<lambda>it. map_of it ''url'') items)"
    by simp
  also have "\<dots> = map PStr us" unfolding urls by simp
  finally have col: "getitem ''url'' ?df0 = Inr (map PStr us)"
    using DataFrame_getitem [OF key] by simp
  obtain res s' where loop: "fetch_loop env (map PStr us) [] [] ?s0 = (res, s')"
    by (cases "fetch_loop env (map PStr us) [] [] ?s0")
  from fetch_loop_run [of env us "[]" "[]" ?s0] loop
  have res: "res = Inr (?texts, ?images)" by simp
  from fetch_loop_slept [of env us "[]" "[]" ?s0] loop len
  have slept: "slept s' = slept s + 10 * length items" by simp
  have s0: "single n ?df0" for n by (rule wf_single [OF DataFrame_wf])
  obtain df1 where df1: "setitem ''full_text'' ?texts ?df0 = Inr df1"
    using len by (simp add: setitem_def DataFrame_index)
  obtain df2 where df2: "setitem ''image_url'' ?images df1 = Inr df2"
    using len setitem_index [OF df1] by (simp add: setitem_def DataFrame_index)
  have idx2: "index df2 = [0..<length items]"
    using setitem_index [OF df2] setitem_index [OF df1] by (simp add: DataFrame_index)
  obtain df3 where df3: "setitem_scalar ''entity'' (PStr stock_code) df2 = Inr df3"
    by (simp add: setitem_scalar_def setitem_def)
  then have df3': "setitem ''entity'' (replicate (length items) (PStr stock_code)) df2 = Inr df3"
    by (simp add: setitem_scalar_def idx2)
  have run: "fetch_daily_stock_articles env stock_code n_days max_articles s = (Inr df3, s')"
    by (simp add: fetch_daily_stock_articles_def search col loop res df1 df2 df3)
  have s1: "single n df1" for n by (rule setitem_single [OF df1 s0])
  have s2: "single n df2" for n by (rule setitem_single [OF df2 s1])
  have ft: "getitem ''full_text'' df3 = Inr ?texts"
    using setitem_same [OF df1 s0] by (simp add: setitem_other [OF df3'] setitem_other [OF df2])
  have im: "getitem ''image_url'' df3 = Inr ?images"
    using setitem_same [OF df2 s1] by (simp add: setitem_other [OF df3'])
  have en: "getitem ''entity'' df3 = Inr (replicate (length items) (PStr stock_code))"
    by (rule setitem_same [OF df3' s2])
  have other: "getitem k df3 = Inr (map (\<lambda>it. case map_of it k of None \<Rightarrow> PNaN | Some v \<Rightarrow> v) items)"
    if "k \<in> set (item_keys items)" "k \<notin> {''full_text'', ''image_url'', ''entity''}" for k
    using that DataFrame_getitem [of k items]
    by (simp add: setitem_other [OF df3'] setitem_other [OF df2] setitem_other [OF df1])
  have idx: "index df3 = [0..<length items]"
    using setitem_index [OF df3'] idx2 by simp
  from run idx ft im en other slept show ?thesis by (rule that)
qed

section \<open>The claims about the Cleaner\<close>

text \<open>
  C1. Whenever the Cleaner returns a table for a raw table, the number of its rows is at most
  the number of raw rows and equals the raw count minus the number of rows whose
  \<open>full_text\<close> contains the failure marker (\<open>contains_iff\<close>: as a substring). Its rows
  are, in order, the raw rows whose \<open>full_text\<close> does not contain the marker: so the row
  labels, and so the cells of the columns that are only filtered.
\<close>

theorem cleaner_row_count:
  assumes "wf_frame raw" and "cleaning_fetched_articles parse raw = Inr out"
  shows "\<exists>texts. getitem ''full_text'' raw = Inr texts \<and>
           nrows out \<le> nrows raw \<and>
           nrows out = nrows raw - length (filter has_marker texts) \<and>
           index out = map fst (filter (\<lambda>row. \<not> has_marker (snd row)) (zip (index raw) texts)) \<and>
           (\<forall>c \<in> {''entity'', ''title'', ''url'', ''image_url''}.
              \<exists>vs. getitem c raw = Inr vs \<and>
                getitem c out =
                  Inr (map fst (filter (\<lambda>cell. \<not> has_marker (snd cell)) (zip vs texts))))"
proof -
  from assms obtain texts pubs times ents titles urls images names stamps dates where
    texts: "getitem ''full_text'' raw = Inr texts"
    and ents: "getitem ''entity'' raw = Inr ents" and titles: "getitem ''title'' raw = Inr titles"
    and urls: "getitem ''url'' raw = Inr urls" and images: "getitem ''image_url'' raw = Inr images"
    and out: "out = \<lparr>index = select (survivors texts) (index raw),
                cols = [(''entity'', select (survivors texts) ents),
                        (''source_publisher'', names),
                        (''title'', select (survivors texts) titles),
                        (''full_text'', map clean_value (select (survivors texts) texts)),
                        (''url'', select (survivors texts) urls),
                        (''published_time'', stamps),
                        (''published_date'', dates),
                        (''image_url'', select (survivors texts) images)]\<rparr>"
    by (rule cleaning_success)
  have len: "length (index raw) = length texts"
    using wf_length [OF assms(1) texts] by simp
  have n: "nrows out = nrows raw - length (filter has_marker texts)"
    using length_survivors [OF len] by (simp add: nrows_def out len)
  note sel = select_survivors
  have "index out = map fst (filter (\<lambda>row. \<not> has_marker (snd row)) (zip (index raw) texts))"
    by (simp add: out sel)
  moreover have "getitem ''entity'' out = Inr (select (survivors texts) ents)"
    "getitem ''title'' out = Inr (select (survivors texts) titles)"
    "getitem ''url'' out = Inr (select (survivors texts) urls)"
    "getitem ''image_url'' out = Inr (select (survivors texts) images)"
    by (simp_all add: out getitem_def)
  ultimately show ?thesis
    using texts n ents titles urls images by (simp add: sel)
qed

theorem cleaner_row_count_witness:
  "nrows cleaned_example = 2 \<and> nrows raw_example = 3 \<and>
   (\<exists>texts. getitem ''full_text'' raw_example = Inr texts \<and>
      length (filter has_marker texts) = 1 \<and> index cleaned_example = [0, 2])"
proof -
  from cleaner_row_count [OF raw_example_wf raw_example_run]
  obtain texts where "getitem ''full_text'' raw_example = Inr texts"
    and "nrows cleaned_example = nrows raw_example - length (filter has_marker texts)"
    by blast
  then show ?thesis
    by (auto simp: getitem_def raw_example_def cleaned_example_def nrows_def has_marker_def
        failure_marker_def LF_def CR_def BACKSLASH_def)
qed

text \<open>
  C5. Whenever the Cleaner returns a table, its columns are exactly \<open>entity\<close>,
  \<open>source_publisher\<close>, \<open>title\<close>, \<open>full_text\<close>, \<open>url\<close>, \<open>published_time\<close>,
  \<open>published_date\<close>, \<open>image_url\<close>, in this order.
\<close>

theorem cleaner_columns:
  assumes "wf_frame raw" and "cleaning_fetched_articles parse raw = Inr out"
  shows "columns out =
           [''entity'', ''source_publisher'', ''title'', ''full_text'', ''url'',
            ''published_time'', ''published_date'', ''image_url'']"
proof -
  from assms obtain texts pubs times ents titles urls images names stamps dates where
    "out = \<lparr>index = select (survivors texts) (index raw),
                cols = [(''entity'', select (survivors texts) ents),
                        (''source_publisher'', names),
                        (''title'', select (survivors texts) titles),
                        (''full_text'', map clean_value (select (survivors texts) texts)),
                        (''url'', select (survivors texts) urls),
                        (''published_time'', stamps),
                        (''published_date'', dates),
                        (''image_url'', select (survivors texts) images)]\<rparr>"
    by (rule cleaning_success)
  then show ?thesis by (simp add: columns_def)
qed

theorem cleaner_columns_witness:
  "wf_frame raw_example \<and>
   cleaning_fetched_articles parse_example raw_example = Inr cleaned_example \<and>
   columns cleaned_example =
     [''entity'', ''source_publisher'', ''title'', ''full_text'', ''url'',
      ''published_time'', ''published_date'', ''image_url'']"
  using cleaner_columns [OF raw_example_wf raw_example_run] raw_example_wf raw_example_run
  by simp

text \<open>
  C7. In every row of the cleaned table, \<open>published_date\<close> is the calendar date of the
  timestamp in \<open>published_time\<close> of that row; where the raw date was missing both are
  \<^verbatim>\<open>NaT\<close>.
\<close>

theorem cleaner_published_date:
  assumes "wf_frame raw" and "cleaning_fetched_articles parse raw = Inr out"
  shows "\<exists>stamps dates. getitem ''published_time'' out = Inr stamps \<and>
           getitem ''published_date'' out = Inr dates \<and>
           length stamps = nrows out \<and>
           list_all2
             (\<lambda>stamp date. (\<exists>t. stamp = PTimestamp t \<and> date = PDate (ts_date t)) \<or>
                            (stamp = PNaT \<and> date = PNaT))
             stamps dates"
proof -
  from assms obtain texts pubs times ents titles urls images names stamps dates where
    texts: "getitem ''full_text'' raw = Inr texts"
    and times: "(getitem ''published date'' raw = Inr times \<and>
            getitem ''published_time'' raw = Inl (KeyError ''published_time'')) \<or>
         (getitem ''published_time'' raw = Inr times \<and>
            getitem ''published date'' raw = Inl (KeyError ''published date''))"
    and stamps: "to_datetime parse (select (survivors texts) times) = Inr stamps"
    and dates: "dt_date stamps = Inr dates"
    and out: "out = \<lparr>index = select (survivors texts) (index raw),
                cols = [(''entity'', select (survivors texts) ents),
                        (''source_publisher'', names),
                        (''title'', select (survivors texts) titles),
                        (''full_text'', map clean_value (select (survivors texts) texts)),
                        (''url'', select (survivors texts) urls),
                        (''published_time'', stamps),
                        (''published_date'', dates),
                        (''image_url'', select (survivors texts) images)]\<rparr>"
    by (rule cleaning_success)
  from times have "length times = length (index raw)"
    using wf_length [OF assms(1)] by blast
  moreover have "length texts = length (index raw)"
    using wf_length [OF assms(1) texts] .
  ultimately have "length (select (survivors texts) times) = length (select (survivors texts) (index raw))"
    by (simp add: length_select survivors_def)
  moreover have "length stamps = length (select (survivors texts) times)"
    using apply_series_all2 [OF stamps [unfolded to_datetime_def]]
    by (simp add: list_all2_lengthD)
  ultimately have len: "length stamps = nrows out"
    by (simp add: nrows_def out)
  from dates have "list_all2 (\<lambda>v y. dt_date1 v = Inr y) stamps dates"
    unfolding dt_date_def by (rule apply_series_all2)
  then have "list_all2
             (\<lambda>stamp date. (\<exists>t. stamp = PTimestamp t \<and> date = PDate (ts_date t)) \<or>
                            (stamp = PNaT \<and> date = PNaT))
             stamps dates"
    by (rule list_all2_mono) (rule dt_date1_Inr)
  moreover have "getitem ''published_time'' out = Inr stamps"
    "getitem ''published_date'' out = Inr dates"
    by (simp_all add: out getitem_def)
  ultimately show ?thesis using len by blast
qed

theorem cleaner_published_date_witness:
  "getitem ''published_time'' cleaned_example =
     Inr [PTimestamp (Timestamp (Date 2024 11 4) 8 30 0),
          PTimestamp (Timestamp (Date 2024 11 5) 23 59 59)] \<and>
   getitem ''published_date'' cleaned_example =
     Inr [PDate (Date 2024 11 4), PDate (Date 2024 11 5)]"
proof -
  from cleaner_published_date [OF raw_example_wf raw_example_run]
  obtain stamps dates where "getitem ''published_time'' cleaned_example = Inr stamps"
    and "getitem ''published_date'' cleaned_example = Inr dates"
    by blast
  then show ?thesis
    by (simp add: getitem_def cleaned_example_def)
qed

text \<open>
  C8. For every surviving row, \<open>source_publisher\<close> is the value under the key \<open>title\<close>
  of that row's publisher dictionary; for the publisher with title Kompas and href
  https://kompas.com it is Kompas.
\<close>

theorem cleaner_source_publisher:
  assumes "wf_frame raw" and "cleaning_fetched_articles parse raw = Inr out"
  shows "\<exists>texts pubs names.
           getitem ''full_text'' raw = Inr texts \<and>
           getitem ''publisher'' raw = Inr pubs \<and>
           getitem ''source_publisher'' out = Inr names \<and>
           list_all2 (\<lambda>pub name. \<exists>d. pub = PDict d \<and> map_of d ''title'' = Some name)
             (map fst (filter (\<lambda>cell. \<not> has_marker (snd cell)) (zip pubs texts))) names \<and>
           subscript ''title''
             (PDict [(''title'', PStr ''Kompas''), (''href'', PStr ''https://kompas.com'')]) =
             Inr (PStr ''Kompas'')"
proof -
  from assms obtain texts pubs times ents titles urls images names stamps dates where
    texts: "getitem ''full_text'' raw = Inr texts"
    and pubs: "getitem ''publisher'' raw = Inr pubs"
    and names: "apply_series (subscript ''title'') (select (survivors texts) pubs) = Inr names"
    and out: "out = \<lparr>index = select (survivors texts) (index raw),
                cols = [(''entity'', select (survivors texts) ents),
                        (''source_publisher'', names),
                        (''title'', select (survivors texts) titles),
                        (''full_text'', map clean_value (select (survivors texts) texts)),
                        (''url'', select (survivors texts) urls),
                        (''published_time'', stamps),
                        (''published_date'', dates),
                        (''image_url'', select (survivors texts) images)]\<rparr>"
    by (rule cleaning_success)
  from names have "list_all2 (\<lambda>v y. subscript ''title'' v = Inr y) (select (survivors texts) pubs) names"
    by (rule apply_series_all2)
  then have "list_all2 (\<lambda>pub name. \<exists>d. pub = PDict d \<and> map_of d ''title'' = Some name)
      (select (survivors texts) pubs) names"
    by (rule list_all2_mono) (rule subscript_Inr)
  moreover have "getitem ''source_publisher'' out = Inr names"
    by (simp add: out getitem_def)
  ultimately show ?thesis using texts pubs by (simp add: select_survivors)
qed

theorem cleaner_source_publisher_witness:
  "getitem ''publisher'' raw_example = Inr [kompas, kompas, kompas] \<and>
   getitem ''source_publisher'' cleaned_example = Inr [PStr ''Kompas'', PStr ''Kompas'']"
proof -
  from cleaner_source_publisher [OF raw_example_wf raw_example_run]
  obtain pubs names where "getitem ''publisher'' raw_example = Inr pubs"
    and "getitem ''source_publisher'' cleaned_example = Inr names"
    by blast
  then show ?thesis
    by (simp add: getitem_def raw_example_def cleaned_example_def)
qed

text \<open>
  C4. For every row that survives the filter, each line feed and each carriage return of
  \<open>full_text\<close> is replaced by the two characters \<open>||\<close> and every backslash is removed,
  so that no cleaned \<open>full_text\<close> contains a line feed, a carriage return or a backslash;
  the three replacements turn \<open>line1\<close> LF \<open>line2\<close> CR LF into \<open>line1||line2||||\<close>.
\<close>

theorem cleaner_full_text:
  assumes "wf_frame raw" and "cleaning_fetched_articles parse raw = Inr out"
  shows "\<exists>texts cleaned.
           getitem ''full_text'' raw = Inr texts \<and>
           getitem ''full_text'' out = Inr cleaned \<and>
           list_all2
             (\<lambda>before after. \<exists>s. before = PStr s \<and>
                after = PStr (concat (map (\<lambda>c. if c = LF \<or> c = CR then ''||''
                                              else if c = BACKSLASH then [] else [c]) s)))
             (filter (\<lambda>v. \<not> has_marker v) texts) cleaned \<and>
           list_all
             (\<lambda>v. case v of
                    PStr s \<Rightarrow> LF \<notin> set s \<and> CR \<notin> set s \<and> BACKSLASH \<notin> set s
                  | _ \<Rightarrow> False)
             cleaned \<and>
           replace_regex BACKSLASH []
             (replace_regex CR ''||''
               (replace_regex LF ''||'' [PStr (''line1'' @ [LF] @ ''line2'' @ [CR, LF])])) =
             [PStr ''line1||line2||||'']"
proof -
  from assms obtain texts pubs times ents titles urls images names stamps dates where
    texts: "getitem ''full_text'' raw = Inr texts" and strs: "list_all is_str texts"
    and out: "out = \<lparr>index = select (survivors texts) (index raw),
                cols = [(''entity'', select (survivors texts) ents),
                        (''source_publisher'', names),
                        (''title'', select (survivors texts) titles),
                        (''full_text'', map clean_value (select (survivors texts) texts)),
                        (''url'', select (survivors texts) urls),
                        (''published_time'', stamps),
                        (''published_date'', dates),
                        (''image_url'', select (survivors texts) images)]\<rparr>"
    by (rule cleaning_success)
  let ?kept = "filter (\<lambda>v. \<not> has_marker v) texts"
  have cleaned: "getitem ''full_text'' out = Inr (map clean_value ?kept)"
    by (simp add: out getitem_def survivors_def select_map_filter)
  from strs have kept: "\<forall>v\<in>set ?kept. \<exists>s. v = PStr s"
    by (auto simp: list_all_iff is_str_iff)
  have rel: "list_all2
             (\<lambda>before after. \<exists>s. before = PStr s \<and>
                after = PStr (concat (map (\<lambda>c. if c = LF \<or> c = CR then ''||''
                                              else if c = BACKSLASH then [] else [c]) s)))
             ?kept (map clean_value ?kept)"
    unfolding list_all2_map2 list_all2_same
  proof
    fix v assume "v \<in> set ?kept"
    with kept obtain s where "v = PStr s" by blast
    then show "\<exists>s. v = PStr s \<and>
                clean_value v = PStr (concat (map (\<lambda>c. if c = LF \<or> c = CR then ''||''
                                              else if c = BACKSLASH then [] else [c]) s))"
      by (simp add: clean_value_def clean_text_pointwise)
  qed
  have free: "list_all
             (\<lambda>v. case v of
                    PStr s \<Rightarrow> LF \<notin> set s \<and> CR \<notin> set s \<and> BACKSLASH \<notin> set s
                  | _ \<Rightarrow> False)
             (map clean_value ?kept)"
    unfolding list_all_iff
  proof
    fix w assume "w \<in> set (map clean_value ?kept)"
    then obtain v where "v \<in> set ?kept" and w: "w = clean_value v" by auto
    with kept obtain s where "v = PStr s" by blast
    with w show "case w of
                    PStr s \<Rightarrow> LF \<notin> set s \<and> CR \<notin> set s \<and> BACKSLASH \<notin> set s
                  | _ \<Rightarrow> False"
      using clean_text_free [of s] by (simp add: clean_value_def)
  qed
  have "replace_regex BACKSLASH []
             (replace_regex CR ''||''
               (replace_regex LF ''||'' [PStr (''line1'' @ [LF] @ ''line2'' @ [CR, LF])])) =
             [PStr ''line1||line2||||'']"
    by (simp add: replace_regex_def LF_def CR_def BACKSLASH_def)
  with texts cleaned rel free show ?thesis by blast
qed

theorem cleaner_full_text_witness:
  "getitem ''full_text'' raw_example =
     Inr [PStr (''line1'' @ [LF] @ ''line2'' @ [CR, LF]),
          PStr ''Error when downloading and parsing article from http://x: timeout'',
          PStr (''a'' @ [BACKSLASH] @ ''b'')] \<and>
   getitem ''full_text'' cleaned_example = Inr [PStr ''line1||line2||||'', PStr ''ab'']"
proof -
  from cleaner_full_text [OF raw_example_wf raw_example_run]
  obtain texts cleaned where "getitem ''full_text'' raw_example = Inr texts"
    and "getitem ''full_text'' cleaned_example = Inr cleaned"
    by blast
  then show ?thesis
    by (simp add: getitem_def raw_example_def cleaned_example_def)
qed

text \<open>
  C9. If a surviving row has a date string that cannot be parsed, or has no publisher
  (no publisher column, or in that row no dictionary with a title), the Cleaner raises
  for the whole call: its result is an exception and no table, also not a part of one.
\<close>

theorem cleaner_fails_as_a_whole:
  assumes wf: "wf_frame raw"
    and texts: "getitem ''full_text'' raw = Inr texts"
    and i: "i < nrows raw"
    and survives: "\<not> has_marker (texts ! i)"
    and bad:
      "(\<exists>ds s. (getitem ''published date'' raw = Inr ds \<or> getitem ''published_time'' raw = Inr ds) \<and>
                ds ! i = PStr s \<and> parse s = Unparseable) \<or>
       getitem ''publisher'' raw = Inl (KeyError ''publisher'') \<or>
       (\<exists>ps. getitem ''publisher'' raw = Inr ps \<and>
             (case ps ! i of PDict d \<Rightarrow> map_of d ''title'' = None | _ \<Rightarrow> True))"
  shows "\<exists>e. cleaning_fetched_articles parse raw = Inl e"
proof (cases "cleaning_fetched_articles parse raw")
  case (Inl e)
  then show ?thesis by blast
next
  case (Inr out)
  from wf Inr obtain texts' pubs times names stamps where
    texts': "getitem ''full_text'' raw = Inr texts'"
    and pubs: "getitem ''publisher'' raw = Inr pubs"
    and times: "(getitem ''published date'' raw = Inr times \<and>
            getitem ''published_time'' raw = Inl (KeyError ''published_time'')) \<or>
         (getitem ''published_time'' raw = Inr times \<and>
            getitem ''published date'' raw = Inl (KeyError ''published date''))"
    and names: "apply_series (subscript ''title'') (select (survivors texts') pubs) = Inr names"
    and stamps: "to_datetime parse (select (survivors texts') times) = Inr stamps"
    by (rule cleaning_success)
  from texts texts' have [simp]: "texts' = texts" by simp
  from bad consider
    (date) ds s where "getitem ''published date'' raw = Inr ds \<or> getitem ''published_time'' raw = Inr ds"
      "ds ! i = PStr s" "parse s = Unparseable"
    | (nocol) "getitem ''publisher'' raw = Inl (KeyError ''publisher'')"
    | (nopub) ps where "getitem ''publisher'' raw = Inr ps"
        "case ps ! i of PDict d \<Rightarrow> map_of d ''title'' = None | _ \<Rightarrow> True"
    by blast
  then have False
  proof cases
    case date
    from date(1) times have ds: "ds = times" by auto
    from times have "getitem ''published date'' raw = Inr times \<or> getitem ''published_time'' raw = Inr times"
      by blast
    then have "times ! i \<in> set (select (survivors texts) times)"
      using survivor_kept [OF wf texts _ i survives] by blast
    with stamps obtain y where "to_datetime1 parse (times ! i) = Inr y"
      unfolding to_datetime_def by (auto dest: apply_series_member)
    with date(2,3) ds show False by simp
  next
    case nocol
    with pubs show False by simp
  next
    case nopub
    with pubs have ps: "ps = pubs" by simp
    have "pubs ! i \<in> set (select (survivors texts) pubs)"
      by (rule survivor_kept [OF wf texts pubs i survives])
    with names obtain y where "subscript ''title'' (pubs ! i) = Inr y"
      by (auto dest: apply_series_member)
    with nopub(2) ps show False
      by (cases "pubs ! i") (auto split: option.splits)
  qed
  then show ?thesis ..
qed

theorem cleaner_fails_as_a_whole_witness:
  "(\<exists>e. cleaning_fetched_articles parse_example bad_date_example = Inl e) \<and>
   (\<exists>e. cleaning_fetched_articles parse_example no_publisher_example = Inl e) \<and>
   getitem ''published date'' bad_date_example = Inr [PStr ''yesterday'', PStr [], PStr []] \<and>
   parse_example ''yesterday'' = Unparseable \<and>
   getitem ''publisher'' no_publisher_example = Inr [kompas, kompas, PNone]"
proof -
  have d: "getitem ''published date'' bad_date_example = Inr [PStr ''yesterday'', PStr [], PStr []]"
    by (simp add: getitem_def bad_date_example_def raw_example_def)
  have p: "getitem ''publisher'' no_publisher_example = Inr [kompas, kompas, PNone]"
    by (simp add: getitem_def no_publisher_example_def raw_example_def)
  have u: "parse_example ''yesterday'' = Unparseable"
    by (simp add: parse_example_def)
  have "\<exists>e. cleaning_fetched_articles parse_example bad_date_example = Inl e"
  proof (rule cleaner_fails_as_a_whole [where i = 0])
    show "wf_frame bad_date_example"
      by (simp add: wf_frame_def bad_date_example_def raw_example_def)
    show "getitem ''full_text'' bad_date_example =
      Inr [PStr (''line1'' @ [LF] @ ''line2'' @ [CR, LF]),
           PStr ''Error when downloading and parsing article from http://x: timeout'',
           PStr (''a'' @ [BACKSLASH] @ ''b'')]"
      by (simp add: getitem_def bad_date_example_def raw_example_def)
    show "0 < nrows bad_date_example"
      by (simp add: nrows_def bad_date_example_def raw_example_def)
    show "\<not> has_marker ([PStr (''line1'' @ [LF] @ ''line2'' @ [CR, LF]),
           PStr ''Error when downloading and parsing article from http://x: timeout'',
           PStr (''a'' @ [BACKSLASH] @ ''b'')] ! 0)"
      by (simp add: has_marker_def failure_marker_def LF_def CR_def)
    show "(\<exists>ds s. (getitem ''published date'' bad_date_example = Inr ds \<or>
                    getitem ''published_time'' bad_date_example = Inr ds) \<and>
                ds ! 0 = PStr s \<and> parse_example s = Unparseable) \<or>
       getitem ''publisher'' bad_date_example = Inl (KeyError ''publisher'') \<or>
       (\<exists>ps. getitem ''publisher'' bad_date_example = Inr ps \<and>
             (case ps ! 0 of PDict d \<Rightarrow> map_of d ''title'' = None | _ \<Rightarrow> True))"
      using d u by auto
  qed
  moreover have "\<exists>e. cleaning_fetched_articles parse_example no_publisher_example = Inl e"
  proof (rule cleaner_fails_as_a_whole [where i = 2])
    show "wf_frame no_publisher_example"
      by (simp add: wf_frame_def no_publisher_example_def raw_example_def)
    show "getitem ''full_text'' no_publisher_example =
      Inr [PStr (''line1'' @ [LF] @ ''line2'' @ [CR, LF]),
           PStr ''Error when downloading and parsing article from http://x: timeout'',
           PStr (''a'' @ [BACKSLASH] @ ''b'')]"
      by (simp add: getitem_def no_publisher_example_def raw_example_def)
    show "2 < nrows no_publisher_example"
      by (simp add: nrows_def no_publisher_example_def raw_example_def)
    show "\<not> has_marker ([PStr (''line1'' @ [LF] @ ''line2'' @ [CR, LF]),
           PStr ''Error when downloading and parsing article from http://x: timeout'',
           PStr (''a'' @ [BACKSLASH] @ ''b'')] ! 2)"
      by (simp add: has_marker_def failure_marker_def BACKSLASH_def)
    show "(\<exists>ds s. (getitem ''published date'' no_publisher_example = Inr ds \<or>
                    getitem ''published_time'' no_publisher_example = Inr ds) \<and>
                ds ! 2 = PStr s \<and> parse_example s = Unparseable) \<or>
       getitem ''publisher'' no_publisher_example = Inl (KeyError ''publisher'') \<or>
       (\<exists>ps. getitem ''publisher'' no_publisher_example = Inr ps \<and>
             (case ps ! 2 of PDict d \<Rightarrow> map_of d ''title'' = None | _ \<Rightarrow> True))"
      using p by simp
  qed
  ultimately show ?thesis using d p u by blast
qed

text \<open>
  C6, as amended. On a table already in the cleaned shape, without failure-marker rows
  and without line feed, carriage return or backslash in \<open>full_text\<close>, the Cleaner does
  not return the table: it raises \<^verbatim>\<open>KeyError\<close> for the \<open>publisher\<close> column, which the
  cleaned shape does not have. Its row filter keeps every row of such a table and its three
  replacements leave the \<open>full_text\<close> column as it is.
\<close>

theorem cleaner_on_cleaned_shape:
  assumes wf: "wf_frame df"
    and shape: "columns df = cleaned_columns"
    and texts: "getitem ''full_text'' df = Inr texts"
    and clean: "list_all (\<lambda>v. case v of
                   PStr s \<Rightarrow> \<not> contains s failure_marker \<and>
                     LF \<notin> set s \<and> CR \<notin> set s \<and> BACKSLASH \<notin> set s
                 | _ \<Rightarrow> False) texts"
  shows "cleaning_fetched_articles parse df = Inl (KeyError ''publisher'') \<and>
         invert (str_contains failure_marker texts) = Inr (replicate (length texts) True) \<and>
         replace_regex BACKSLASH [] (replace_regex CR ''||'' (replace_regex LF ''||'' texts)) = texts"
proof -
  from clean_cells_survive [OF clean]
  have strs: "list_all is_str texts" and surv: "survivors texts = replicate (length texts) True"
    and same: "map clean_value texts = texts"
    by simp_all
  have inv: "invert (str_contains failure_marker texts) = Inr (replicate (length texts) True)"
    using strs surv by (simp add: invert_marker)
  have len: "length texts = length (index df)"
    by (rule wf_length [OF wf texts])
  from inv len obtain df1 where df1: "getitem_mask (replicate (length texts) True) df = Inr df1"
    by (simp add: getitem_mask_def)
  have nopub: "getitem ''publisher'' df = Inl (KeyError ''publisher'')"
    using shape by (simp add: getitem_KeyError columns_def cleaned_columns_def filter_absent flip: set_map)
  have idx1: "index df1 = index df"
    using getitem_mask_index [OF df1] len by simp
  have s1: "single n df1" for n
    using getitem_mask_single [OF df1] wf_single [OF wf] by simp
  have t1: "getitem ''full_text'' df1 = Inr texts"
    using getitem_mask_getitem [OF df1, of "''full_text''"] texts by simp
  let ?v2 = "replace_regex LF ''||'' texts"
  obtain df2 where df2: "setitem ''full_text'' ?v2 df1 = Inr df2"
    using len idx1 by (simp add: setitem_def)
  have t2: "getitem ''full_text'' df2 = Inr ?v2"
    by (rule setitem_same [OF df2 s1])
  let ?v3 = "replace_regex CR ''||'' ?v2"
  obtain df3 where df3: "setitem ''full_text'' ?v3 df2 = Inr df3"
    using len idx1 setitem_index [OF df2] by (simp add: setitem_def)
  have t3: "getitem ''full_text'' df3 = Inr ?v3"
    by (rule setitem_same [OF df3 setitem_single [OF df2 s1]])
  let ?v4 = "replace_regex BACKSLASH [] ?v3"
  obtain df4 where df4: "setitem ''full_text'' ?v4 df3 = Inr df4"
    using len idx1 setitem_index [OF df2] setitem_index [OF df3] by (simp add: setitem_def)
  have "getitem ''publisher'' (rename ''published date'' ''published_time'' df4) =
      getitem ''publisher'' df1"
    by (simp add: rename_other setitem_other [OF df4] setitem_other [OF df3]
        setitem_other [OF df2])
  also have "\<dots> = Inl (KeyError ''publisher'')"
    using getitem_mask_getitem [OF df1, of "''publisher''"] nopub by simp
  finally have "cleaning_fetched_articles parse df = Inl (KeyError ''publisher'')"
    unfolding cleaning_fetched_articles_def
    by (simp add: texts inv df1 t1 df2 t2 df3 t3 df4)
  moreover have "replace_regex BACKSLASH [] (replace_regex CR ''||'' (replace_regex LF ''||'' texts)) = texts"
    using same by (simp add: replace_regex_clean)
  ultimately show ?thesis using inv by simp
qed


theorem cleaner_on_cleaned_shape_witness:
  "wf_frame cleaned_example \<and> columns cleaned_example = cleaned_columns \<and>
   getitem ''full_text'' cleaned_example = Inr [PStr ''line1||line2||||'', PStr ''ab''] \<and>
   cleaning_fetched_articles parse_example cleaned_example = Inl (KeyError ''publisher'')"
proof -
  have t: "getitem ''full_text'' cleaned_example = Inr [PStr ''line1||line2||||'', PStr ''ab'']"
    by (simp add: getitem_def cleaned_example_def)
  have c: "columns cleaned_example = cleaned_columns"
    by (simp add: columns_def cleaned_example_def cleaned_columns_def)
  have "list_all (\<lambda>v. case v of
                   PStr s \<Rightarrow> \<not> contains s failure_marker \<and>
                     LF \<notin> set s \<and> CR \<notin> set s \<and> BACKSLASH \<notin> set s
                 | _ \<Rightarrow> False) [PStr ''line1||line2||||'', PStr ''ab'']"
    by (simp add: failure_marker_def LF_def CR_def BACKSLASH_def)
  from cleaner_on_cleaned_shape [OF cleaned_wf c t this] cleaned_wf c t
  show ?thesis by simp
qed

text \<open>
  The counterexample to C6 as stated: the Cleaner's own output for the example is a
  table in the cleaned shape, without marker rows and stray characters, and cleaning it
  again raises instead of returning it.
\<close>

theorem cleaner_not_idempotent:
  "cleaning_fetched_articles parse_example raw_example = Inr cleaned_example \<and>
   columns cleaned_example = cleaned_columns \<and>
   getitem ''full_text'' cleaned_example = Inr [PStr ''line1||line2||||'', PStr ''ab''] \<and>
   cleaning_fetched_articles parse_example cleaned_example = Inl (KeyError ''publisher'') \<and>
   cleaning_fetched_articles parse_example cleaned_example \<noteq> Inr cleaned_example"
proof -
  have "cleaning_fetched_articles parse_example cleaned_example = Inl (KeyError ''publisher'')"
    by (simp add: run_defs cleaned_example_def)
  moreover have "columns cleaned_example = cleaned_columns"
    by (simp add: columns_def cleaned_example_def cleaned_columns_def)
  moreover have "getitem ''full_text'' cleaned_example = Inr [PStr ''line1||line2||||'', PStr ''ab'']"
    by (simp add: getitem_def cleaned_example_def)
  ultimately show ?thesis using raw_example_run by simp
qed

text \<open>
  C10. The Cleaner never writes its input table. In the store model, for every store and
  every input object of it, each object that existed before the call, the input among
  them, is the same after the call, whether the call returns or raises; what the call
  returns is a new object, whose value is the cleaned table.
\<close>

theorem cleaner_leaves_input:
  assumes "df < length h"
  shows "case cleaning_fetched_articles_st parse df h of
           (res, h') \<Rightarrow>
             take (length h) h' = h \<and> h' ! df = h ! df \<and>
             (case res of
                Inl e \<Rightarrow> cleaning_fetched_articles parse (h ! df) = Inl e
              | Inr r \<Rightarrow> length h \<le> r \<and> r < length h' \<and>
                  cleaning_fetched_articles parse (h ! df) = Inr (h' ! r))"
  using assms
  unfolding cleaning_fetched_articles_st_def cleaning_fetched_articles_def
    bind_new_st bind_read_st bind_pure_st bind_write_st
  by (simp add: new_st_def and_then_def nth_append split: sum.split)

theorem cleaner_leaves_input_witness:
  "(0::nat) < length [raw_example] \<and>
   snd (cleaning_fetched_articles_st parse_example 0 [raw_example]) ! 0 = raw_example \<and>
   (\<exists>r. fst (cleaning_fetched_articles_st parse_example 0 [raw_example]) = Inr r \<and>
        snd (cleaning_fetched_articles_st parse_example 0 [raw_example]) ! r = cleaned_example)"
  using cleaner_leaves_input [of 0 "[raw_example]" parse_example] raw_example_run
  by (simp add: case_prod_unfold split: sum.splits)

section \<open>The claims about the Fetcher\<close>

text \<open>
  C3 asks for one row per search result, in order, with \<open>full_text\<close>, \<open>image_url\<close> and
  \<open>entity\<close> added, also when the search returns the empty sequence. On the empty
  sequence the code returns no table: \<^verbatim>\<open>pd.DataFrame([])\<close> has no \<open>url\<close> column, and
  line 39 raises \<^verbatim>\<open>KeyError\<close> before anything is added.
\<close>

theorem fetcher_empty_search_raises:
  "fetch_daily_stock_articles no_results ''BBCA'' 3 5 start =
     (Inl (KeyError ''url''), \<lparr>world = 1, stdout = [], slept = 0\<rparr>)"
  by (simp add: fetch_daily_stock_articles_def no_results_def start_def DataFrame_def
      item_keys_def getitem_def)

text \<open>
  C2. For every search result whose download or parse fails, the string
  \<open>Error when downloading and parsing article from\<close> url\<open>:\<close> error detail is recorded
  in both the \<open>full_text\<close> and the \<open>image_url\<close> cell of that row, and the loop goes on
  with the next result: whatever the outcomes of the downloads, the Fetcher returns the
  table with one row per result, and no failure of an article escapes it. (The results are
  those of a search that found some, each with a string url; an outcome \<open>Inl e\<close> is an
  exception raised by the download or the parse, with text \<open>e\<close>.)
\<close>

theorem fetcher_records_failures:
  assumes "get_news env stock_code n_days max_articles (world s) = (Inr items, w)"
    and "items \<noteq> []"
    and "map (\<lambda>it. map_of it ''url'') items = map (\<lambda>u. Some (PStr u)) us"
  shows "\<exists>df s' texts images.
           fetch_daily_stock_articles env stock_code n_days max_articles s = (Inr df, s') \<and>
           nrows df = length items \<and>
           getitem ''full_text'' df = Inr texts \<and> length texts = length items \<and>
           getitem ''image_url'' df = Inr images \<and> length images = length items \<and>
           (\<forall>i<length items.
              case outcomes env us w ! i of
                Inl e \<Rightarrow>
                  texts ! i =
                    PStr (''Error when downloading and parsing article from '' @ us ! i @ '': '' @ e) \<and>
                  images ! i =
                    PStr (''Error when downloading and parsing article from '' @ us ! i @ '': '' @ e)
              | Inr a \<Rightarrow> texts ! i = PStr (article_text a) \<and> images ! i = first_image a)"
proof -
  from assms obtain df s' where
    run: "fetch_daily_stock_articles env stock_code n_days max_articles s = (Inr df, s')"
    and idx: "index df = [0..<length items]"
    and ft: "getitem ''full_text'' df = Inr (map2 recorded_text us (outcomes env us w))"
    and im: "getitem ''image_url'' df = Inr (map2 recorded_image us (outcomes env us w))"
    by (rule fetcher_run)
  from assms(3) have "length (map (\<lambda>it. map_of it ''url'') items) = length (map (\<lambda>u. Some (PStr u)) us)"
    by (rule arg_cong)
  then have len: "length us = length items" by simp
  have cells: "case outcomes env us w ! i of
                Inl e \<Rightarrow>
                  map2 recorded_text us (outcomes env us w) ! i =
                    PStr (''Error when downloading and parsing article from '' @ us ! i @ '': '' @ e) \<and>
                  map2 recorded_image us (outcomes env us w) ! i =
                    PStr (''Error when downloading and parsing article from '' @ us ! i @ '': '' @ e)
              | Inr a \<Rightarrow> map2 recorded_text us (outcomes env us w) ! i = PStr (article_text a) \<and>
                  map2 recorded_image us (outcomes env us w) ! i = first_image a"
    if "i < length items" for i
    using that len
    by (simp add: recorded_text_def recorded_image_def placeholder_def split: sum.splits)
  from run idx ft im len cells show ?thesis
    by (simp add: nrows_def)
qed

theorem fetcher_records_failures_witness:
  "\<exists>df s'. fetch_daily_stock_articles two_results ''BBCA'' 3 5 start = (Inr df, s') \<and>
      nrows df = 2 \<and>
      getitem ''full_text'' df =
        Inr [PStr ''line1'',
             PStr ''Error when downloading and parsing article from http://x: timeout''] \<and>
      getitem ''image_url'' df =
        Inr [PStr ''http://a/i.png'',
             PStr ''Error when downloading and parsing article from http://x: timeout'']"
proof -
  have search: "get_news two_results ''BBCA'' 3 5 (world start) = (Inr [item_a, item_x], 1)"
    by (simp add: two_results_def start_def)
  have urls: "map (\<lambda>it. map_of it ''url'') [item_a, item_x] =
      map (\<lambda>u. Some (PStr u)) [''http://a'', ''http://x'']"
    by (simp add: item_a_def item_x_def)
  have out: "outcomes two_results [''http://a'', ''http://x''] 1 =
      [Inr \<lparr>article_text = ''line1'', article_images = [''http://a/i.png'']\<rparr>, Inl ''timeout'']"
    by (simp add: two_results_def)
  from fetcher_records_failures [OF search _ urls]
  obtain df s' texts images where
    run: "fetch_daily_stock_articles two_results ''BBCA'' 3 5 start = (Inr df, s')"
    and n: "nrows df = 2"
    and ft: "getitem ''full_text'' df = Inr texts" "length texts = 2"
    and im: "getitem ''image_url'' df = Inr images" "length images = 2"
    and cells: "\<forall>i<2.
              case outcomes two_results [''http://a'', ''http://x''] 1 ! i of
                Inl e \<Rightarrow>
                  texts ! i =
                    PStr (''Error when downloading and parsing article from '' @
                          [''http://a'', ''http://x''] ! i @ '': '' @ e) \<and>
                  images ! i =
                    PStr (''Error when downloading and parsing article from '' @
                          [''http://a'', ''http://x''] ! i @ '': '' @ e)
              | Inr a \<Rightarrow> texts ! i = PStr (article_text a) \<and> images ! i = first_image a"
    by auto
  note cells' = cells [unfolded out, rule_format]
  from cells' [of 0] cells' [of 1]
  have "texts ! 0 = PStr ''line1''" "images ! 0 = PStr ''http://a/i.png''"
    "texts ! 1 = PStr ''Error when downloading and parsing article from http://x: timeout''"
    "images ! 1 = PStr ''Error when downloading and parsing article from http://x: timeout''"
    by (simp_all add: first_image_def)
  with ft(2) im(2) have "texts = [PStr ''line1'',
             PStr ''Error when downloading and parsing article from http://x: timeout'']"
    "images = [PStr ''http://a/i.png'',
             PStr ''Error when downloading and parsing article from http://x: timeout'']"
    by (simp_all add: list_eq_iff_nth_eq less_Suc_eq numeral_2_eq_2)
  with run n ft(1) im(1) show ?thesis by blast
qed

end
